theory Spec2Isabelle
  imports Complex_Main "HOL-Library.Word"
begin

text \<open>
  A model of \<open>PyHook/pipeline.py\<close>: the pipeline object with its settings codec,
  \<open>change_settings\<close> and \<open>process_frame\<close>; the loader \<open>load_pipelines\<close>; and the
  persistence functions \<open>save_settings\<close> and \<open>load_settings\<close>. A Python exception
  is a value of type \<open>error\<close>, returned on the left of a sum; what a function
  mutates (the pipelines' settings, the settings file, \<open>sys.modules\<close>, the log) is
  passed in and returned.
\<close>

section \<open>Python values\<close>

text \<open>
  The values that settings, transport values and JSON documents range over.
  A finite float is modelled by the number it denotes (so \<open>0.0\<close> and \<open>-0.0\<close>
  coincide): \<open>pipeline.py\<close> performs no float arithmetic, it only converts
  (\<open>bool\<close>, \<open>int\<close>), compares and stores. Dictionaries are association lists
  in insertion order with distinct keys.
\<close>

datatype pyfloat = Finite real | PosInf | NegInf | NaN

datatype pynum = NBool bool | NInt int | NFloat pyfloat

datatype pyval =
    PNone
  | PNum pynum
  | PStr string
  | PList "pyval list"
  | PDict "(string \<times> pyval) list"

datatype error =
    PipelinesDirNotFoundError
  | FrameSizeModificationError
  | ValueError
  | KeyError
  | TypeError
  | IndexError
  | AttributeError
  | OverflowError
  | JSONDecodeError
  | FileNotFoundError
  | PluginError string
  | SystemExit
  | KeyboardInterrupt

text \<open>The exceptions of class \<open>Exception\<close>, which \<open>except Exception\<close> catches:
  all but \<open>SystemExit\<close> and \<open>KeyboardInterrupt\<close>, which derive from
  \<open>BaseException\<close> only. \<open>PluginError\<close> stands for any other \<open>Exception\<close> that
  plugin code raises.\<close>

fun is_Exception :: "error \<Rightarrow> bool" where
  "is_Exception SystemExit = False"
| "is_Exception KeyboardInterrupt = False"
| "is_Exception e = True"

text \<open>\<open>bool(value)\<close> on a number.\<close>

fun py_bool :: "pynum \<Rightarrow> bool" where
  "py_bool (NBool b) = b"
| "py_bool (NInt n) = (n \<noteq> 0)"
| "py_bool (NFloat (Finite r)) = (r \<noteq> 0)"
| "py_bool (NFloat PosInf) = True"
| "py_bool (NFloat NegInf) = True"
| "py_bool (NFloat NaN) = True"

text \<open>\<open>int(value)\<close> on a number: truncation towards zero; infinities raise
  OverflowError and NaN raises ValueError.\<close>

definition trunc :: "real \<Rightarrow> int" where
  "trunc r = (if 0 \<le> r then \<lfloor>r\<rfloor> else \<lceil>r\<rceil>)"

fun py_int :: "pynum \<Rightarrow> error + int" where
  "py_int (NBool b) = Inr (if b then 1 else 0)"
| "py_int (NInt n) = Inr n"
| "py_int (NFloat (Finite r)) = Inr (trunc r)"
| "py_int (NFloat PosInf) = Inl OverflowError"
| "py_int (NFloat NegInf) = Inl OverflowError"
| "py_int (NFloat NaN) = Inl ValueError"

text \<open>Python's \<open>==\<close> between numbers: by numeric value across bool, int and
  float; NaN equals nothing.\<close>

fun num_real :: "pynum \<Rightarrow> real option" where
  "num_real (NBool b) = Some (if b then 1 else 0)"
| "num_real (NInt n) = Some (of_int n)"
| "num_real (NFloat (Finite r)) = Some r"
| "num_real (NFloat PosInf) = None"
| "num_real (NFloat NegInf) = None"
| "num_real (NFloat NaN) = None"

definition py_eq :: "pynum \<Rightarrow> pynum \<Rightarrow> bool" where
  "py_eq a b =
     (case (num_real a, num_real b) of
        (Some x, Some y) \<Rightarrow> x = y
      | (None, None) \<Rightarrow> a = b \<and> a \<noteq> NFloat NaN
      | _ \<Rightarrow> False)"

text \<open>\<open>str(value) in ["True", "False"]\<close>: the string form of a bool is one of
  the two names, a string is its own string form, and the string form of every
  other value (digits, \<open>inf\<close>, \<open>nan\<close>, \<open>None\<close>, a bracketed display) is neither.\<close>

fun str_in_True_False :: "pyval \<Rightarrow> bool" where
  "str_in_True_False (PNum (NBool b)) = True"
| "str_in_True_False (PStr s) = (s = ''True'' \<or> s = ''False'')"
| "str_in_True_False v = False"

text \<open>\<open>isinstance(value, int)\<close>: bool is a subclass of int.\<close>

fun isinstance_int :: "pyval \<Rightarrow> bool" where
  "isinstance_int (PNum (NBool b)) = True"
| "isinstance_int (PNum (NInt n)) = True"
| "isinstance_int v = False"

section \<open>Regular expressions\<close>

text \<open>
  The fragment of Python's \<open>re\<close> syntax that \<open>_COMBO_TAG_REGEX\<close> uses, matched
  by derivatives. \<open>AnyChar\<close> is \<open>.\<close>, which matches every character but the
  newline. A lazy quantifier (\<open>*?\<close>) accepts the same strings as the greedy one.
\<close>

datatype regex =
    Nothing
  | Empty
  | Lit char
  | AnyChar
  | Then regex regex
  | Or regex regex
  | Many regex

definition newline :: char where
  "newline = CHR 0x0A"

fun nullable :: "regex \<Rightarrow> bool" where
  "nullable Nothing = False"
| "nullable Empty = True"
| "nullable (Lit c) = False"
| "nullable AnyChar = False"
| "nullable (Then r s) = (nullable r \<and> nullable s)"
| "nullable (Or r s) = (nullable r \<or> nullable s)"
| "nullable (Many r) = True"

fun deriv :: "char \<Rightarrow> regex \<Rightarrow> regex" where
  "deriv c Nothing = Nothing"
| "deriv c Empty = Nothing"
| "deriv c (Lit d) = (if c = d then Empty else Nothing)"
| "deriv c AnyChar = (if c = newline then Nothing else Empty)"
| "deriv c (Then r s) =
     (if nullable r then Or (Then (deriv c r) s) (deriv c s) else Then (deriv c r) s)"
| "deriv c (Or r s) = Or (deriv c r) (deriv c s)"
| "deriv c (Many r) = Then (deriv c r) (Many r)"

fun accepts :: "regex \<Rightarrow> string \<Rightarrow> bool" where
  "accepts r [] = nullable r"
| "accepts r (c # cs) = accepts (deriv c r) cs"

fun literal :: "string \<Rightarrow> regex" where
  "literal [] = Empty"
| "literal (c # cs) = Then (Lit c) (literal cs)"

text \<open>\<open>re.compile("^" + r + "$").match(s)\<close>: the match starts at the first
  character, and \<open>$\<close> stands at the end of the string or just before a newline
  that ends it.\<close>

definition re_match :: "regex \<Rightarrow> string \<Rightarrow> bool" where
  "re_match r s = (accepts r s \<or> (s \<noteq> [] \<and> last s = newline \<and> accepts r (butlast s)))"

text \<open>\<open>_COMBO_TAG_REGEX = re.compile(r"^%COMBO\[(.*?,)*.*?\].*$")\<close>\<close>

definition COMBO_TAG_REGEX :: regex where
  "COMBO_TAG_REGEX =
     Then (literal ''%COMBO['')
       (Then (Many (Then (Many AnyChar) (Lit (CHR '',''))))
         (Then (Many AnyChar)
           (Then (Lit (CHR '']'')) (Many AnyChar))))"

section \<open>Settings codec\<close>

text \<open>\<open>Pipeline._to_internal_type(value, tooltip)\<close>. The tooltip reaches
  \<open>re.match\<close> only for an integer value; a tooltip that is not a string raises
  TypeError there.\<close>

definition to_internal_type :: "pyval \<Rightarrow> pyval \<Rightarrow> error + nat" where
  "to_internal_type v tooltip =
     (if str_in_True_False v then Inr 0
      else if isinstance_int v then
        (case tooltip of
           PStr t \<Rightarrow> if re_match COMBO_TAG_REGEX t then Inr 3 else Inr 1
         | _ \<Rightarrow> Inl TypeError)
      else Inr 2)"

section \<open>Pipelines\<close>

text \<open>A frame: a numpy array of uint8 with its shape. A frame callback may return
  an object that has no \<open>shape\<close> attribute at all.\<close>

record ndarray =
  shape :: "nat list"
  pixels :: "8 word list"

datatype pyobj = Ndarray ndarray | NoShape

text \<open>A plugin's settings, \<open>Dict[str, List[Any]]\<close>: each key maps to the list
  \<open>[value, min, max, step, tooltip]\<close>.\<close>

type_synonym settings = "(string \<times> pyval list) list"

text \<open>
  \<open>class PipelineCallbacks\<close>. A callback is plugin code: the frame callback is
  a function of the frame that may raise; a hook is seen by what its call does to
  the caller, returning (\<open>None\<close>) or raising (\<open>Some e\<close>). An absent optional
  callback is \<open>None\<close>.
\<close>

record callbacks =
  on_frame_process :: "ndarray \<Rightarrow> int \<Rightarrow> int \<Rightarrow> int \<Rightarrow> error + pyobj"
  on_load :: "(unit \<Rightarrow> error option) option"
  on_unload :: "(unit \<Rightarrow> error option) option"
  before_change_settings :: "(string \<Rightarrow> pynum \<Rightarrow> error option) option"
  after_change_settings :: "(string \<Rightarrow> pynum \<Rightarrow> error option) option"

text \<open>\<open>class Pipeline\<close>; its attribute \<open>file\<close> is the field \<open>file_name\<close>.\<close>

record pipeline =
  path :: string
  file_name :: string
  name :: string
  callbacks :: callbacks
  version :: string
  desc :: string
  settings :: "settings option"
  mappings :: "(string \<times> nat) list"

text \<open>\<open>v[i]\<close> on a list: IndexError out of range.\<close>

definition getitem :: "pyval list \<Rightarrow> nat \<Rightarrow> error + pyval" where
  "getitem xs i = (if i < length xs then Inr (xs ! i) else Inl IndexError)"

text \<open>The dictionary comprehension of \<open>Pipeline.__init__\<close>:
  \<open>{k: self._to_internal_type(v[0], v[4]) for k, v in settings.items()}\<close>.\<close>

fun build_mappings :: "settings \<Rightarrow> error + (string \<times> nat) list" where
  "build_mappings [] = Inr []"
| "build_mappings ((k, v) # rest) =
     (case getitem v 0 of
        Inl e \<Rightarrow> Inl e
      | Inr v0 \<Rightarrow>
         (case getitem v 4 of
            Inl e \<Rightarrow> Inl e
          | Inr v4 \<Rightarrow>
             (case to_internal_type v0 v4 of
                Inl e \<Rightarrow> Inl e
              | Inr c \<Rightarrow>
                 (case build_mappings rest of
                    Inl e \<Rightarrow> Inl e
                  | Inr m \<Rightarrow> Inr ((k, c) # m)))))"

text \<open>\<open>Pipeline.__init__\<close>; \<open>basename\<close> is \<open>os.path.basename\<close>.\<close>

definition Pipeline ::
  "(string \<Rightarrow> string) \<Rightarrow> string \<Rightarrow> string \<Rightarrow> callbacks \<Rightarrow> string \<Rightarrow> string \<Rightarrow>
   settings option \<Rightarrow> error + pipeline" where
  "Pipeline basename pth nm cbs ver dsc sett =
     (case (case sett of None \<Rightarrow> Inr [] | Some s \<Rightarrow> build_mappings s) of
        Inl e \<Rightarrow> Inl e
      | Inr m \<Rightarrow>
         Inr \<lparr>path = pth, file_name = basename pth, name = nm, callbacks = cbs,
              version = ver, desc = dsc, settings = sett, mappings = m\<rparr>)"

text \<open>\<open>Pipeline._to_value(key, value)\<close>: \<open>self.mappings[key]\<close> raises KeyError
  for an undeclared key.\<close>

definition to_value :: "pipeline \<Rightarrow> string \<Rightarrow> pynum \<Rightarrow> error + pynum" where
  "to_value p key v =
     (case map_of (mappings p) key of
        None \<Rightarrow> Inl KeyError
      | Some c \<Rightarrow>
         if c = 0 then Inr (NBool (py_bool v))
         else if c = 1 \<or> c = 3 then
           (case py_int v of Inl e \<Rightarrow> Inl e | Inr n \<Rightarrow> Inr (NInt n))
         else Inr v)"

text \<open>\<open>d[k] = v\<close> on a dictionary: an existing key keeps its place, a new key
  goes last.\<close>

fun dict_set :: "('k \<times> 'v) list \<Rightarrow> 'k \<Rightarrow> 'v \<Rightarrow> ('k \<times> 'v) list" where
  "dict_set [] k v = [(k, v)]"
| "dict_set ((k', v') # d) k v = (if k' = k then (k, v) # d else (k', v') # dict_set d k v)"

text \<open>\<open>self.settings[key][0] = x\<close>: TypeError when the plugin has no settings
  (\<open>None\<close> is not subscriptable), KeyError for a missing key, IndexError on an
  empty list.\<close>

definition store_value :: "settings option \<Rightarrow> string \<Rightarrow> pyval \<Rightarrow> error + settings option" where
  "store_value sett key x =
     (case sett of
        None \<Rightarrow> Inl TypeError
      | Some s \<Rightarrow>
         (case map_of s key of
            None \<Rightarrow> Inl KeyError
          | Some [] \<Rightarrow> Inl IndexError
          | Some (y # ys) \<Rightarrow> Inr (Some (dict_set s key (x # ys)))))"

text \<open>
  Calls of the settings hooks are recorded in a trace, each with its arguments and
  with the pipeline's settings as they stand during the call: the plugin's
  \<open>settings\<close> dictionary is the very object the pipeline mutates, so this is what
  the hook can read.
\<close>

datatype event =
    BeforeChangeSettings string pynum "settings option"
  | AfterChangeSettings string pynum "settings option"

text \<open>\<open>Pipeline.change_settings(enabled, key, new_value)\<close>. The right-hand side
  \<open>self._to_value(key, new_value)\<close> is evaluated before the subscription target.
  A raise leaves what was done before it in place.\<close>

definition change_settings ::
  "bool \<Rightarrow> string \<Rightarrow> pynum \<Rightarrow> pipeline \<times> event list \<Rightarrow> (error + unit) \<times> pipeline \<times> event list" where
  "change_settings enabled key new_value st =
     (let p = fst st; tr = snd st;
          (r1, tr1) =
            (case before_change_settings (callbacks p) of
               Some hook \<Rightarrow>
                 if enabled then (hook key new_value, tr @ [BeforeChangeSettings key new_value (settings p)])
                 else (None, tr)
             | None \<Rightarrow> (None, tr))
      in case r1 of
           Some e \<Rightarrow> (Inl e, p, tr1)
         | None \<Rightarrow>
            (case to_value p key new_value of
               Inl e \<Rightarrow> (Inl e, p, tr1)
             | Inr x \<Rightarrow>
                (case store_value (settings p) key (PNum x) of
                   Inl e \<Rightarrow> (Inl e, p, tr1)
                 | Inr s' \<Rightarrow>
                    (let p' = p\<lparr>settings := s'\<rparr> in
                     case after_change_settings (callbacks p') of
                       Some hook \<Rightarrow>
                         if enabled then
                           (case hook key new_value of
                              Some e \<Rightarrow> (Inl e, p', tr1 @ [AfterChangeSettings key new_value s'])
                            | None \<Rightarrow> (Inr (), p', tr1 @ [AfterChangeSettings key new_value s']))
                         else (Inr (), p', tr1)
                     | None \<Rightarrow> (Inr (), p', tr1)))))"

text \<open>\<open>Pipeline.process_frame(frame, width, height, frame_num)\<close>:
  \<open>raise FrameSizeModificationError()\<close> carries no argument.\<close>

definition process_frame :: "pipeline \<Rightarrow> ndarray \<Rightarrow> int \<Rightarrow> int \<Rightarrow> int \<Rightarrow> error + ndarray" where
  "process_frame p frame width height frame_num =
     (let input_shape = shape frame
      in case on_frame_process (callbacks p) frame width height frame_num of
           Inl e \<Rightarrow> Inl e
         | Inr NoShape \<Rightarrow> Inl AttributeError
         | Inr (Ndarray out) \<Rightarrow>
            if input_shape \<noteq> shape out then Inl FrameSizeModificationError else Inr out)"

section \<open>Loading pipelines\<close>

text \<open>
  A loaded plugin module, by the attributes \<open>_build_pipeline\<close> probes with
  \<open>hasattr\<close>: an absent attribute is \<open>None\<close>.
\<close>

record pymodule =
  m_on_frame_process :: "(ndarray \<Rightarrow> int \<Rightarrow> int \<Rightarrow> int \<Rightarrow> error + pyobj) option"
  m_on_load :: "(unit \<Rightarrow> error option) option"
  m_on_unload :: "(unit \<Rightarrow> error option) option"
  m_before_change_settings :: "(string \<Rightarrow> pynum \<Rightarrow> error option) option"
  m_after_change_settings :: "(string \<Rightarrow> pynum \<Rightarrow> error option) option"
  m_name :: "string option"
  m_version :: "string option"
  m_desc :: "string option"
  m_settings :: "settings option"

text \<open>\<open>_build_pipeline(module, name, path)\<close>\<close>

definition build_pipeline ::
  "(string \<Rightarrow> string) \<Rightarrow> pymodule \<Rightarrow> string \<Rightarrow> string \<Rightarrow> error + pipeline" where
  "build_pipeline basename mdl nm pth =
     (case m_on_frame_process mdl of
        None \<Rightarrow> Inl ValueError
      | Some f \<Rightarrow>
         Pipeline basename pth
           (case m_name mdl of None \<Rightarrow> nm | Some n \<Rightarrow> n)
           \<lparr>on_frame_process = f, on_load = m_on_load mdl, on_unload = m_on_unload mdl,
            before_change_settings = m_before_change_settings mdl,
            after_change_settings = m_after_change_settings mdl\<rparr>
           (case m_version mdl of None \<Rightarrow> [] | Some v \<Rightarrow> v)
           (case m_desc mdl of None \<Rightarrow> [] | Some d \<Rightarrow> d)
           (m_settings mdl))"

text \<open>
  What importing one plugin file does: \<open>spec_from_file_location\<close> or
  \<open>module_from_spec\<close> raises (before the module is entered in \<open>sys.modules\<close>),
  \<open>exec_module\<close> raises (after it), or the module is executed. What is raised
  may be of any class: a plugin that calls \<open>sys.exit()\<close> at import raises
  \<open>SystemExit\<close>.
\<close>

datatype import_outcome = SpecFailed error | ExecFailed error | Executed pymodule

text \<open>The operating system as \<open>load_pipelines\<close> sees it: \<open>os.path.isdir\<close>,
  \<open>os.path.abspath\<close>, \<open>glob.glob\<close>, \<open>os.path.basename\<close> and the import
  machinery (module name, path).\<close>

record os_env =
  isdir :: "string \<Rightarrow> bool"
  abspath :: "string \<Rightarrow> string"
  glob :: "string \<Rightarrow> string list"
  basename :: "string \<Rightarrow> string"
  import_module :: "string \<Rightarrow> string \<Rightarrow> import_outcome"

text \<open>The logger's records, and what \<open>load_pipelines\<close> changes: the names
  entered in \<open>sys.modules\<close> and the log.\<close>

datatype log_record =
    LoadedPipeline string
  | CannotLoadPipeline string
  | ErrorDetail error

record loader_state =
  sys_modules :: "string list"
  logged :: "log_record list"

definition PIPELINE_DIRS :: "string list" where
  "PIPELINE_DIRS = [''./pipelines'', ''./PyHook/pipelines'']"

text \<open>The first loop of \<open>load_pipelines\<close>: it has no \<open>break\<close>, so every
  candidate that is a directory overwrites \<open>pipeline_dir\<close>.\<close>

fun find_pipeline_dir :: "os_env \<Rightarrow> string list \<Rightarrow> string option \<Rightarrow> string option" where
  "find_pipeline_dir env [] pipeline_dir = pipeline_dir"
| "find_pipeline_dir env (pth # rest) pipeline_dir =
     find_pipeline_dir env rest (if isdir env pth then Some (abspath env pth) else pipeline_dir)"

text \<open>\<open>basename(path)[:-3]\<close>\<close>

definition module_name_of :: "os_env \<Rightarrow> string \<Rightarrow> string" where
  "module_name_of env pth = (let b = basename env pth in take (length b - 3) b)"

text \<open>The body of the \<open>try\<close> block for one file, up to the pipeline object.\<close>

definition load_file :: "os_env \<Rightarrow> string \<Rightarrow> error + pipeline" where
  "load_file env pth =
     (case import_module env (module_name_of env pth) pth of
        SpecFailed e \<Rightarrow> Inl e
      | ExecFailed e \<Rightarrow> Inl e
      | Executed mdl \<Rightarrow> build_pipeline (basename env) mdl (module_name_of env pth) pth)"

definition register_module :: "string \<Rightarrow> string list \<Rightarrow> string list" where
  "register_module n ms = (if n \<in> set ms then ms else ms @ [n])"

text \<open>One turn of the second loop: \<open>try\<close> and \<open>except Exception\<close>. An
  exception of class \<open>Exception\<close> is caught, and logged if there is a logger; any
  other one leaves the loop and \<open>load_pipelines\<close> (\<open>Some e\<close>), with the module
  already registered and nothing logged.\<close>

definition load_step ::
  "os_env \<Rightarrow> bool \<Rightarrow> string \<Rightarrow> (string \<times> pipeline) list \<times> loader_state \<Rightarrow>
   error option \<times> (string \<times> pipeline) list \<times> loader_state" where
  "load_step env has_logger pth acc =
     (let pipelines = fst acc; st = snd acc;
          st1 = (case import_module env (module_name_of env pth) pth of
                   SpecFailed e \<Rightarrow> st
                 | _ \<Rightarrow> st\<lparr>sys_modules := register_module (module_name_of env pth) (sys_modules st)\<rparr>)
      in case load_file env pth of
           Inr pl \<Rightarrow>
             (None, dict_set pipelines (file_name pl) pl,
              if has_logger then st1\<lparr>logged := logged st1 @ [LoadedPipeline pth]\<rparr> else st1)
         | Inl ex \<Rightarrow>
             if is_Exception ex then
               (None, pipelines,
                if has_logger
                then st1\<lparr>logged := logged st1 @ [CannotLoadPipeline pth, ErrorDetail ex]\<rparr>
                else st1)
             else (Some ex, pipelines, st1))"

fun load_files ::
  "os_env \<Rightarrow> bool \<Rightarrow> string list \<Rightarrow> (string \<times> pipeline) list \<times> loader_state \<Rightarrow>
   error option \<times> (string \<times> pipeline) list \<times> loader_state" where
  "load_files env has_logger [] acc = (None, acc)"
| "load_files env has_logger (pth # rest) acc =
     (case load_step env has_logger pth acc of
        (Some ex, acc') \<Rightarrow> (Some ex, acc')
      | (None, acc') \<Rightarrow> load_files env has_logger rest acc')"

text \<open>\<open>load_pipelines(logger)\<close>; \<open>has_logger\<close> is \<open>logger is not None\<close>.\<close>

definition load_pipelines ::
  "os_env \<Rightarrow> bool \<Rightarrow> loader_state \<Rightarrow> (error + (string \<times> pipeline) list) \<times> loader_state" where
  "load_pipelines env has_logger st =
     (case find_pipeline_dir env PIPELINE_DIRS None of
        None \<Rightarrow> (Inl PipelinesDirNotFoundError, st)
      | Some pipeline_dir \<Rightarrow>
         (case load_files env has_logger (glob env (pipeline_dir @ ''/*.py'')) ([], st) of
            (Some ex, pipelines, st') \<Rightarrow> (Inl ex, st')
          | (None, pipelines, st') \<Rightarrow> (Inr pipelines, st')))"

section \<open>Persistence\<close>

text \<open>
  The settings file as \<open>json.load\<close> reads it: text that is not JSON
  (\<open>json.load\<close> raises JSONDecodeError), or the text of a JSON value.
  \<open>json.dump\<close> writes the text of the value it is given. The file system maps a
  path to the file there, if any.
\<close>

datatype file_content = Malformed | Json pyval

type_synonym filesystem = "string \<Rightarrow> file_content option"

definition SETTINGS_FILE :: string where
  "SETTINGS_FILE = ''pyhook.json''"

text \<open>\<open>f"{dir_path}\\{_SETTINGS_FILE}"\<close>: the separator is one backslash.\<close>

definition settings_path :: "string \<Rightarrow> string" where
  "settings_path dir_path = dir_path @ [CHR 0x5C] @ SETTINGS_FILE"

text \<open>\<open>@dataclass class PipelineRuntimeData\<close>\<close>

record PipelineRuntimeData =
  pipeline_order :: "string list"
  active_pipelines :: "string list"
  to_unload :: "string list"
  to_load :: "string list"
  changes :: "(string \<times> (string \<times> pynum) list) list"

text \<open>The inner loop of \<open>save_settings\<close>:
  \<open>settings[p_file][key] = var_list[0]\<close> for every setting of one pipeline.\<close>

fun save_values :: "settings \<Rightarrow> (string \<times> pyval) list \<Rightarrow> error + (string \<times> pyval) list" where
  "save_values [] d = Inr d"
| "save_values ((key, var_list) # rest) d =
     (case getitem var_list 0 of
        Inl e \<Rightarrow> Inl e
      | Inr v \<Rightarrow> save_values rest (dict_set d key v))"

text \<open>The outer loop of \<open>save_settings\<close> over \<open>pipelines.items()\<close>.\<close>

fun save_entries ::
  "(string \<times> pipeline) list \<Rightarrow> (string \<times> pyval) list \<Rightarrow> error + (string \<times> pyval) list" where
  "save_entries [] d = Inr d"
| "save_entries ((p_file, pl) # rest) d =
     (case settings pl of
        None \<Rightarrow> save_entries rest d
      | Some s \<Rightarrow>
         (case save_values s [] of
            Inl e \<Rightarrow> Inl e
          | Inr vals \<Rightarrow> save_entries rest (dict_set d p_file (PDict vals))))"

text \<open>\<open>save_settings(pipelines, order, active, dir_path)\<close>: the file is opened
  and written only after the whole record has been built. \<open>open_w\<close> is what
  \<open>open(path, "w")\<close> does at a path: it opens the file (\<open>None\<close>) or raises, as
  FileNotFoundError does for a directory that does not exist; then nothing is
  written.\<close>

definition save_settings ::
  "(string \<Rightarrow> error option) \<Rightarrow> (string \<times> pipeline) list \<Rightarrow> string list \<Rightarrow> string list \<Rightarrow>
   string \<Rightarrow> filesystem \<Rightarrow> error + filesystem" where
  "save_settings open_w pipelines order active dir_path fs =
     (case save_entries pipelines
             (dict_set (dict_set [] ''order'' (PList (map PStr order)))
                ''active'' (PList (map PStr active))) of
        Inl e \<Rightarrow> Inl e
      | Inr d \<Rightarrow>
         (case open_w (settings_path dir_path) of
            Some e \<Rightarrow> Inl e
          | None \<Rightarrow> Inr (fs(settings_path dir_path := Some (Json (PDict d))))))"

text \<open>\<open>pipelines[p_file].settings[key][0] = value\<close> for every pair of one
  persisted entry whose key the plugin's settings have.\<close>

fun load_values :: "(string \<times> pyval) list \<Rightarrow> settings \<Rightarrow> error + settings" where
  "load_values [] s = Inr s"
| "load_values ((key, v) # rest) s =
     (case map_of s key of
        None \<Rightarrow> load_values rest s
      | Some [] \<Rightarrow> Inl IndexError
      | Some (y # ys) \<Rightarrow> load_values rest (dict_set s key (v # ys)))"

text \<open>As \<open>load_values\<close>, but keeping the settings as the raise leaves them:
  the values stored before an IndexError stay stored.\<close>

fun load_values_partial :: "(string \<times> pyval) list \<Rightarrow> settings \<Rightarrow> settings" where
  "load_values_partial [] s = s"
| "load_values_partial ((key, v) # rest) s =
     (case map_of s key of
        None \<Rightarrow> load_values_partial rest s
      | Some [] \<Rightarrow> s
      | Some (y # ys) \<Rightarrow> load_values_partial rest (dict_set s key (v # ys)))"

text \<open>The first loop of \<open>load_settings\<close> over \<open>settings.items()\<close>. It returns
  the pipelines as the loop leaves them, also when it raises: \<open>.items()\<close> of a
  value that is not a dictionary raises AttributeError.\<close>

fun load_entries ::
  "(string \<times> pyval) list \<Rightarrow> (string \<times> pipeline) list \<Rightarrow>
   error option \<times> (string \<times> pipeline) list" where
  "load_entries [] pipelines = (None, pipelines)"
| "load_entries ((p_file, p_settings) # rest) pipelines =
     (if p_file = ''order'' \<or> p_file = ''active'' then load_entries rest pipelines
      else
        (case map_of pipelines p_file of
           None \<Rightarrow> load_entries rest pipelines
         | Some pl \<Rightarrow>
            (case settings pl of
               None \<Rightarrow> load_entries rest pipelines
             | Some s \<Rightarrow>
                (case p_settings of
                   PDict kvs \<Rightarrow>
                     (case load_values kvs s of
                        Inl e \<Rightarrow>
                          (Some e,
                           dict_set pipelines p_file (pl\<lparr>settings := Some (load_values_partial kvs s)\<rparr>))
                      | Inr s' \<Rightarrow>
                          load_entries rest (dict_set pipelines p_file (pl\<lparr>settings := Some s'\<rparr>)))
                 | _ \<Rightarrow> (Some AttributeError, pipelines)))))"

text \<open>Iterating a JSON value (\<open>for p in settings["order"]\<close>): a list gives its
  elements, a string its characters, a dictionary its keys; \<open>None\<close> and numbers
  are not iterable.\<close>

fun py_iter :: "pyval \<Rightarrow> error + pyval list" where
  "py_iter (PList xs) = Inr xs"
| "py_iter (PStr s) = Inr (map (\<lambda>c. PStr [c]) s)"
| "py_iter (PDict kvs) = Inr (map (\<lambda>kv. PStr (fst kv)) kvs)"
| "py_iter v = Inl TypeError"

text \<open>\<open>[p for p in xs if p in pipelines]\<close>: a list or a dictionary is
  unhashable (TypeError); only a string can be a key of \<open>pipelines\<close>.\<close>

fun keep_loaded :: "pyval list \<Rightarrow> string list \<Rightarrow> error + string list" where
  "keep_loaded [] keys = Inr []"
| "keep_loaded (PStr k # rest) keys =
     (case keep_loaded rest keys of
        Inl e \<Rightarrow> Inl e
      | Inr ks \<Rightarrow> Inr (if k \<in> set keys then k # ks else ks))"
| "keep_loaded (PList xs # rest) keys = Inl TypeError"
| "keep_loaded (PDict kvs # rest) keys = Inl TypeError"
| "keep_loaded (v # rest) keys = keep_loaded rest keys"

text \<open>\<open>p in container\<close> for a string \<open>p\<close>, where the container has been
  iterated already: an element of a list, a substring of a string, a key of a
  dictionary.\<close>

fun is_substring :: "string \<Rightarrow> string \<Rightarrow> bool" where
  "is_substring p [] = (p = [])"
| "is_substring p (c # cs) = (take (length p) (c # cs) = p \<or> is_substring p cs)"

fun py_contains :: "pyval \<Rightarrow> string \<Rightarrow> bool" where
  "py_contains (PList xs) p = (PStr p \<in> set xs)"
| "py_contains (PStr s) p = is_substring p s"
| "py_contains (PDict kvs) p = (p \<in> set (map fst kvs))"
| "py_contains v p = False"

text \<open>\<open>settings[k]\<close> on the loaded record: KeyError when absent.\<close>

definition dict_get :: "(string \<times> pyval) list \<Rightarrow> string \<Rightarrow> error + pyval" where
  "dict_get d k = (case map_of d k of None \<Rightarrow> Inl KeyError | Some v \<Rightarrow> Inr v)"

text \<open>The two list expressions of \<open>load_settings\<close> that follow the loop,
  \<open>order\<close> first and \<open>active\<close> second.\<close>

definition reconcile ::
  "(string \<times> pyval) list \<Rightarrow> string list \<Rightarrow> error + PipelineRuntimeData" where
  "reconcile d keys =
     (case dict_get d ''order'' of
        Inl e \<Rightarrow> Inl e
      | Inr ord \<Rightarrow>
         (case py_iter ord of
            Inl e \<Rightarrow> Inl e
          | Inr os \<Rightarrow>
             (case keep_loaded os keys of
                Inl e \<Rightarrow> Inl e
              | Inr kept \<Rightarrow>
                 (let order = kept @ filter (\<lambda>p. \<not> py_contains ord p) keys
                  in case dict_get d ''active'' of
                       Inl e \<Rightarrow> Inl e
                     | Inr act \<Rightarrow>
                        (case py_iter act of
                           Inl e \<Rightarrow> Inl e
                         | Inr as \<Rightarrow>
                            (case keep_loaded as keys of
                               Inl e \<Rightarrow> Inl e
                             | Inr active \<Rightarrow>
                                Inr \<lparr>pipeline_order = order, active_pipelines = active,
                                     to_unload = [], to_load = active, changes = []\<rparr>))))))"

text \<open>\<open>load_settings(pipelines, dir_path)\<close>: the result, or the error raised,
  and the pipelines, whose settings it mutates in place.\<close>

definition load_settings ::
  "(string \<times> pipeline) list \<Rightarrow> string \<Rightarrow> filesystem \<Rightarrow>
   (error + PipelineRuntimeData \<times> bool) \<times> (string \<times> pipeline) list" where
  "load_settings pipelines dir_path fs =
     (case fs (settings_path dir_path) of
        None \<Rightarrow>
          (Inr (\<lparr>pipeline_order = map fst pipelines, active_pipelines = [],
                 to_unload = [], to_load = [], changes = []\<rparr>, False), pipelines)
      | Some Malformed \<Rightarrow> (Inl JSONDecodeError, pipelines)
      | Some (Json (PDict d)) \<Rightarrow>
          (case load_entries d pipelines of
             (Some e, pipelines') \<Rightarrow> (Inl e, pipelines')
           | (None, pipelines') \<Rightarrow>
               (case reconcile d (map fst pipelines') of
                  Inl e \<Rightarrow> (Inl e, pipelines')
                | Inr rd \<Rightarrow> (Inr (rd, True), pipelines')))
      | Some (Json v) \<Rightarrow> (Inl AttributeError, pipelines))"

section \<open>Vocabulary of the properties\<close>

text \<open>Two numbers of the same Python type: both bool, both int, or both float.\<close>

fun same_kind :: "pynum \<Rightarrow> pynum \<Rightarrow> bool" where
  "same_kind (NBool a) (NBool b) = True"
| "same_kind (NInt a) (NInt b) = True"
| "same_kind (NFloat a) (NFloat b) = True"
| "same_kind a b = False"

text \<open>What \<open>Pipeline.__init__\<close> has checked of the settings of every pipeline it
  built: each setting's list has its element 0 (the constructor reads \<open>v[0]\<close> and
  \<open>v[4]\<close>).\<close>

definition settings_ok :: "settings option \<Rightarrow> bool" where
  "settings_ok sett = (case sett of None \<Rightarrow> True | Some s \<Rightarrow> list_all (\<lambda>kv. snd kv \<noteq> []) s)"

definition loaded_ok :: "(string \<times> pipeline) list \<Rightarrow> bool" where
  "loaded_ok pipelines = list_all (\<lambda>fp. settings_ok (settings (snd fp))) pipelines"

text \<open>A settings dictionary has each key once.\<close>

definition settings_distinct :: "(string \<times> pipeline) list \<Rightarrow> bool" where
  "settings_distinct pipelines =
     list_all (\<lambda>fp. case settings (snd fp) of None \<Rightarrow> True | Some s \<Rightarrow> distinct (map fst s)) pipelines"

text \<open>A persisted record whose entry for a loaded plugin is a dictionary; entries
  under other keys may hold anything.\<close>

fun is_dict :: "pyval \<Rightarrow> bool" where
  "is_dict (PDict kvs) = True"
| "is_dict v = False"

definition entries_ok :: "(string \<times> pyval) list \<Rightarrow> string list \<Rightarrow> bool" where
  "entries_ok d keys =
     list_all (\<lambda>fv. fst fv = ''order'' \<or> fst fv = ''active'' \<or> fst fv \<notin> set keys \<or> is_dict (snd fv)) d"

text \<open>The serialized form in the specification's words: \<open>order\<close>, \<open>active\<close>, and
  one entry per plugin that has settings, mapping each setting key to its current
  value only.\<close>

definition persisted_record ::
  "(string \<times> pipeline) list \<Rightarrow> string list \<Rightarrow> string list \<Rightarrow> (string \<times> pyval) list" where
  "persisted_record pipelines order active =
     [(''order'', PList (map PStr order)), (''active'', PList (map PStr active))] @
     concat (map (\<lambda>fp. case settings (snd fp) of
                          None \<Rightarrow> []
                        | Some s \<Rightarrow> [(fst fp, PDict (map (\<lambda>kv. (fst kv, hd (snd kv))) s))])
               pipelines)"

text \<open>\<open>fresh_of p c\<close>: the pipeline \<open>c\<close> is the plugin of \<open>p\<close> as \<open>load_pipelines\<close>
  builds it anew, so it differs from \<open>p\<close> at most in the current value (element 0)
  of each setting.\<close>

definition fresh_of :: "pipeline \<Rightarrow> pipeline \<Rightarrow> bool" where
  "fresh_of p c =
     (c\<lparr>settings := settings p\<rparr> = p \<and>
      (case (settings c, settings p) of
         (None, None) \<Rightarrow> True
       | (Some s0, Some s) \<Rightarrow>
           list_all2 (\<lambda>a b. fst a = fst b \<and> snd a \<noteq> [] \<and> snd b \<noteq> [] \<and> tl (snd a) = tl (snd b)) s0 s
       | _ \<Rightarrow> False))"

text \<open>The strings a regular expression denotes, to say what the matcher accepts.\<close>

definition conc :: "string set \<Rightarrow> string set \<Rightarrow> string set" where
  "conc A B = {u @ v | u v. u \<in> A \<and> v \<in> B}"

inductive_set repeated :: "string set \<Rightarrow> string set" for A :: "string set" where
  none: "[] \<in> repeated A"
| more: "u \<in> A \<Longrightarrow> v \<in> repeated A \<Longrightarrow> u @ v \<in> repeated A"

fun lang :: "regex \<Rightarrow> string set" where
  "lang Nothing = {}"
| "lang Empty = {[]}"
| "lang (Lit c) = {[c]}"
| "lang AnyChar = {[c] | c. c \<noteq> newline}"
| "lang (Then r s) = conc (lang r) (lang s)"
| "lang (Or r s) = lang r \<union> lang s"
| "lang (Many r) = repeated (lang r)"

section \<open>Example plugins and environments\<close>

text \<open>Two frame callbacks: one adds a constant to every element and keeps the
  shape, one returns a single pixel.\<close>

definition brighten_frame :: "ndarray \<Rightarrow> int \<Rightarrow> int \<Rightarrow> int \<Rightarrow> error + pyobj" where
  "brighten_frame frame w h n = Inr (Ndarray (frame\<lparr>pixels := map (\<lambda>x. x + 10) (pixels frame)\<rparr>))"

definition crop_frame :: "ndarray \<Rightarrow> int \<Rightarrow> int \<Rightarrow> int \<Rightarrow> error + pyobj" where
  "crop_frame frame w h n = Inr (Ndarray \<lparr>shape = [1, 1, 3], pixels = take 3 (pixels frame)\<rparr>)"

definition black_frame :: ndarray where
  "black_frame = \<lparr>shape = [1, 2, 3], pixels = [0, 0, 0, 0, 0, 0]\<rparr>"

definition quiet_hook :: "string \<Rightarrow> pynum \<Rightarrow> error option" where
  "quiet_hook key v = None"

definition gamma_settings :: settings where
  "gamma_settings =
     [(''level'', [PNum (NFloat (Finite 1)), PNum (NFloat (Finite 0)), PNum (NFloat (Finite 5)),
                   PNum (NFloat (Finite (1 / 2))), PStr ''Gamma level'']),
      (''mode'', [PNum (NInt 1), PNum (NInt 0), PNum (NInt 2), PNum (NInt 1),
                  PStr ''%COMBO[soft,hard,off] Mode'']),
      (''invert'', [PNum (NBool False), PNone, PNone, PNone, PStr ''Invert'']),
      (''passes'', [PNum (NInt 2), PNum (NInt 1), PNum (NInt 9), PNum (NInt 1), PStr ''Passes''])]"

definition gamma_module :: pymodule where
  "gamma_module =
     \<lparr>m_on_frame_process = Some brighten_frame, m_on_load = None, m_on_unload = None,
      m_before_change_settings = Some quiet_hook, m_after_change_settings = Some quiet_hook,
      m_name = Some ''Gamma'', m_version = Some ''1.0'', m_desc = None,
      m_settings = Some gamma_settings\<rparr>"

definition brighten_module :: pymodule where
  "brighten_module =
     \<lparr>m_on_frame_process = Some brighten_frame, m_on_load = None, m_on_unload = None,
      m_before_change_settings = None, m_after_change_settings = None,
      m_name = None, m_version = None, m_desc = None, m_settings = None\<rparr>"

definition crop_module :: pymodule where
  "crop_module = brighten_module\<lparr>m_on_frame_process := Some crop_frame\<rparr>"

definition nohook_module :: pymodule where
  "nohook_module = brighten_module\<lparr>m_on_frame_process := None\<rparr>"

definition gamma_pipeline :: pipeline where
  "gamma_pipeline =
     \<lparr>path = ''/game/pipelines/gamma.py'', file_name = ''gamma.py'', name = ''Gamma'',
      callbacks = \<lparr>on_frame_process = brighten_frame, on_load = None, on_unload = None,
                   before_change_settings = Some quiet_hook,
                   after_change_settings = Some quiet_hook\<rparr>,
      version = ''1.0'', desc = [], settings = Some gamma_settings,
      mappings = [(''level'', 2), (''mode'', 3), (''invert'', 0), (''passes'', 1)]\<rparr>"

definition plain_pipeline ::
  "string \<Rightarrow> (ndarray \<Rightarrow> int \<Rightarrow> int \<Rightarrow> int \<Rightarrow> error + pyobj) \<Rightarrow> pipeline" where
  "plain_pipeline stem f =
     \<lparr>path = ''/game/pipelines/'' @ stem @ ''.py'', file_name = stem @ ''.py'', name = stem,
      callbacks = \<lparr>on_frame_process = f, on_load = None, on_unload = None,
                   before_change_settings = None, after_change_settings = None\<rparr>,
      version = [], desc = [], settings = None, mappings = []\<rparr>"

text \<open>An environment: the directories that exist, and the listing of each; paths
  are POSIX paths under \<open>/game\<close>.\<close>

definition last_component :: "string \<Rightarrow> string" where
  "last_component p = rev (takeWhile (\<lambda>c. c \<noteq> CHR ''/'') (rev p))"

definition demo_import :: "string \<Rightarrow> string \<Rightarrow> import_outcome" where
  "demo_import nm pth =
     (if nm = ''gamma'' then Executed gamma_module
      else if nm = ''brighten'' then Executed brighten_module
      else if nm = ''crop'' then Executed crop_module
      else if nm = ''nohook'' then Executed nohook_module
      else if nm = ''broken'' then ExecFailed (PluginError ''SyntaxError'')
      else if nm = ''quit'' then ExecFailed SystemExit
      else SpecFailed AttributeError)"

definition demo_env :: "string list \<Rightarrow> (string \<Rightarrow> string list) \<Rightarrow> os_env" where
  "demo_env dirs listing =
     \<lparr>isdir = (\<lambda>p. p \<in> set dirs), abspath = (\<lambda>p. ''/game'' @ drop 1 p), glob = listing,
      basename = last_component, import_module = demo_import\<rparr>"

definition demo_listing :: "string \<Rightarrow> string list" where
  "demo_listing pattern =
     (if pattern = ''/game/pipelines/*.py''
      then [''/game/pipelines/broken.py'', ''/game/pipelines/brighten.py'',
            ''/game/pipelines/nohook.py'', ''/game/pipelines/gamma.py'']
      else if pattern = ''/game/PyHook/pipelines/*.py''
      then [''/game/PyHook/pipelines/crop.py'']
      else [])"

definition broken_listing :: "string \<Rightarrow> string list" where
  "broken_listing pattern =
     (if pattern = ''/game/pipelines/*.py''
      then [''/game/pipelines/broken.py'', ''/game/pipelines/nohook.py'']
      else [])"

definition quitting_listing :: "string \<Rightarrow> string list" where
  "quitting_listing pattern =
     (if pattern = ''/game/pipelines/*.py''
      then [''/game/pipelines/quit.py'', ''/game/pipelines/brighten.py'']
      else [])"

definition fresh_state :: loader_state where
  "fresh_state = \<lparr>sys_modules = [], logged = []\<rparr>"

definition no_files :: filesystem where
  "no_files = (\<lambda>p. None)"

text \<open>\<open>open(path, "w")\<close> where every directory exists, and where none does.\<close>

definition opens :: "string \<Rightarrow> error option" where
  "opens p = None"

definition no_directory :: "string \<Rightarrow> error option" where
  "no_directory p = Some FileNotFoundError"

definition demo_pipelines :: "(string \<times> pipeline) list" where
  "demo_pipelines =
     [(''brighten.py'', plain_pipeline ''brighten'' brighten_frame), (''gamma.py'', gamma_pipeline)]"

text \<open>The plugins of \<open>demo_pipelines\<close> after the user has changed three settings
  of \<open>gamma.py\<close>.\<close>

definition tuned_settings :: settings where
  "tuned_settings =
     [(''level'', [PNum (NFloat (Finite (5 / 2))), PNum (NFloat (Finite 0)), PNum (NFloat (Finite 5)),
                   PNum (NFloat (Finite (1 / 2))), PStr ''Gamma level'']),
      (''mode'', [PNum (NInt 2), PNum (NInt 0), PNum (NInt 2), PNum (NInt 1),
                  PStr ''%COMBO[soft,hard,off] Mode'']),
      (''invert'', [PNum (NBool True), PNone, PNone, PNone, PStr ''Invert'']),
      (''passes'', [PNum (NInt 2), PNum (NInt 1), PNum (NInt 9), PNum (NInt 1), PStr ''Passes''])]"

definition tuned_pipelines :: "(string \<times> pipeline) list" where
  "tuned_pipelines =
     [(''brighten.py'', plain_pipeline ''brighten'' brighten_frame),
      (''gamma.py'', gamma_pipeline\<lparr>settings := Some tuned_settings\<rparr>)]"

text \<open>A persisted record written when the plugins were \<open>a.py\<close>, \<open>brighten.py\<close> and
  \<open>gamma.py\<close>, read back when they are \<open>brighten.py\<close>, \<open>gamma.py\<close> and \<open>d.py\<close>.\<close>

definition drifted_pipelines :: "(string \<times> pipeline) list" where
  "drifted_pipelines = demo_pipelines @ [(''d.py'', plain_pipeline ''d'' brighten_frame)]"

definition drifted_record :: "(string \<times> pyval) list" where
  "drifted_record =
     [(''order'', PList [PStr ''a.py'', PStr ''brighten.py'', PStr ''gamma.py'']),
      (''active'', PList [PStr ''a.py'', PStr ''gamma.py'']),
      (''a.py'', PDict [(''x'', PNum (NInt 1))]),
      (''gamma.py'', PDict [(''level'', PNum (NFloat (Finite (5 / 2)))), (''gone'', PNum (NInt 3))])]"

section \<open>What the matcher accepts\<close>

lemma conc_nil: "[] \<in> conc A B \<longleftrightarrow> [] \<in> A \<and> [] \<in> B"
  by (auto simp: conc_def)

lemma conc_cons:
  "c # w \<in> conc A B \<longleftrightarrow>
     ([] \<in> A \<and> c # w \<in> B) \<or> (\<exists>u v. w = u @ v \<and> c # u \<in> A \<and> v \<in> B)"
proof
  assume "c # w \<in> conc A B"
  then obtain u v where uv: "c # w = u @ v" "u \<in> A" "v \<in> B" by (auto simp: conc_def)
  show "([] \<in> A \<and> c # w \<in> B) \<or> (\<exists>u v. w = u @ v \<and> c # u \<in> A \<and> v \<in> B)"
  proof (cases u)
    case Nil
    with uv show ?thesis by simp
  next
    case (Cons a u')
    with uv have "w = u' @ v" "c # u' \<in> A" by auto
    with uv(3) show ?thesis by blast
  qed
next
  assume "([] \<in> A \<and> c # w \<in> B) \<or> (\<exists>u v. w = u @ v \<and> c # u \<in> A \<and> v \<in> B)"
  then show "c # w \<in> conc A B"
  proof
    assume "[] \<in> A \<and> c # w \<in> B"
    then have "[] @ (c # w) \<in> conc A B" unfolding conc_def by blast
    then show ?thesis by simp
  next
    assume "\<exists>u v. w = u @ v \<and> c # u \<in> A \<and> v \<in> B"
    then obtain u v where "w = u @ v" "c # u \<in> A" "v \<in> B" by blast
    then have "(c # u) @ v \<in> conc A B" unfolding conc_def by blast
    with \<open>w = u @ v\<close> show ?thesis by simp
  qed
qed

lemma repeated_split:
  "x \<in> repeated A \<Longrightarrow> x = c # w \<Longrightarrow> \<exists>u v. w = u @ v \<and> c # u \<in> A \<and> v \<in> repeated A"
proof (induction arbitrary: c w rule: repeated.induct)
  case none
  then show ?case by simp
next
  case (more u v)
  show ?case
  proof (cases u)
    case Nil
    with more show ?thesis by simp
  next
    case (Cons a u')
    with more.prems more.hyps have "w = u' @ v" "c # u' \<in> A" "v \<in> repeated A" by auto
    then show ?thesis by blast
  qed
qed

lemma repeated_cons:
  "c # w \<in> repeated A \<longleftrightarrow> (\<exists>u v. w = u @ v \<and> c # u \<in> A \<and> v \<in> repeated A)"
proof
  assume "c # w \<in> repeated A"
  then show "\<exists>u v. w = u @ v \<and> c # u \<in> A \<and> v \<in> repeated A"
    by (rule repeated_split) simp
next
  assume "\<exists>u v. w = u @ v \<and> c # u \<in> A \<and> v \<in> repeated A"
  then obtain u v where "w = u @ v" "c # u \<in> A" "v \<in> repeated A" by blast
  then have "(c # u) @ v \<in> repeated A" by (intro repeated.more)
  with \<open>w = u @ v\<close> show "c # w \<in> repeated A" by simp
qed

lemma nullable_lang: "nullable r \<longleftrightarrow> [] \<in> lang r"
  by (induction r) (auto simp: conc_nil repeated.none)

lemma deriv_lang: "w \<in> lang (deriv c r) \<longleftrightarrow> c # w \<in> lang r"
proof (induction r arbitrary: w)
  case (Then r s)
  then show ?case by (auto simp: conc_cons nullable_lang) (auto simp: conc_def)
next
  case (Many r)
  then show ?case by (auto simp: repeated_cons conc_def)
qed auto

lemma accepts_lang: "accepts r w \<longleftrightarrow> w \<in> lang r"
  by (induction w arbitrary: r) (auto simp: nullable_lang deriv_lang)

lemma lang_any_star: "lang (Many AnyChar) = {w. newline \<notin> set w}"
proof (intro set_eqI iffI)
  fix w assume "w \<in> lang (Many AnyChar)"
  then have "w \<in> repeated {[c] | c. c \<noteq> newline}" by simp
  then have "newline \<notin> set w" by (induction rule: repeated.induct) auto
  then show "w \<in> {w. newline \<notin> set w}" by simp
next
  fix w assume "w \<in> {w. newline \<notin> set w}"
  then have "newline \<notin> set w" by simp
  then have "w \<in> repeated {[c] | c. c \<noteq> newline}"
  proof (induction w)
    case Nil
    show ?case by (rule repeated.none)
  next
    case (Cons c w)
    then have "[c] \<in> {[c] | c. c \<noteq> newline}" "w \<in> repeated {[c] | c. c \<noteq> newline}" by auto
    then have "[c] @ w \<in> repeated {[c] | c. c \<noteq> newline}" by (rule repeated.more)
    then show ?case by simp
  qed
  then show "w \<in> lang (Many AnyChar)" by simp
qed

lemma lang_literal: "lang (literal s) = {s}"
  by (induction s) (auto simp: conc_def)

lemma lang_options:
  "[] \<in> lang (Many (Then (Many AnyChar) (Lit (CHR '','')))) \<and>
   (w \<in> lang (Many (Then (Many AnyChar) (Lit (CHR '','')))) \<longrightarrow> newline \<notin> set w)"
proof
  show "[] \<in> lang (Many (Then (Many AnyChar) (Lit (CHR '',''))))"
    by (simp add: repeated.none)
  show "w \<in> lang (Many (Then (Many AnyChar) (Lit (CHR '','')))) \<longrightarrow> newline \<notin> set w"
  proof
    assume "w \<in> lang (Many (Then (Many AnyChar) (Lit (CHR '',''))))"
    then have "w \<in> repeated (conc {w. newline \<notin> set w} {[CHR '','']})"
      using lang_any_star by simp
    then show "newline \<notin> set w"
      by (induction rule: repeated.induct) (auto simp: conc_def newline_def)
  qed
qed

lemma lang_COMBO_TAG_REGEX:
  "lang COMBO_TAG_REGEX =
     {''%COMBO['' @ a @ '']'' @ b | a b. newline \<notin> set a \<and> newline \<notin> set b}"
proof (intro set_eqI iffI)
  fix w assume "w \<in> lang COMBO_TAG_REGEX"
  then obtain r1 where w1: "w = ''%COMBO['' @ r1"
    and r1: "r1 \<in> lang (Then (Many (Then (Many AnyChar) (Lit (CHR '',''))))
               (Then (Many AnyChar) (Then (Lit (CHR '']'')) (Many AnyChar))))"
    unfolding COMBO_TAG_REGEX_def lang.simps(5)[of "literal ''%COMBO[''"] lang_literal conc_def
    by blast
  from r1 obtain o1 r2 where w2: "r1 = o1 @ r2"
    and o1: "o1 \<in> lang (Many (Then (Many AnyChar) (Lit (CHR '',''))))"
    and r2: "r2 \<in> lang (Then (Many AnyChar) (Then (Lit (CHR '']'')) (Many AnyChar)))"
    unfolding lang.simps(5)[of "Many (Then (Many AnyChar) (Lit (CHR '','')))"] conc_def
    by blast
  from r2 obtain a1 r3 where w3: "r2 = a1 @ r3"
    and a1: "a1 \<in> lang (Many AnyChar)"
    and r3: "r3 \<in> lang (Then (Lit (CHR '']'')) (Many AnyChar))"
    unfolding lang.simps(5)[of "Many AnyChar"] conc_def
    by blast
  from r3 obtain b where w4: "r3 = '']'' @ b" and b: "b \<in> lang (Many AnyChar)"
    unfolding lang.simps(5)[of "Lit (CHR '']'')"] lang.simps(3) conc_def
    by blast
  from w1 w2 w3 w4 have w: "w = ''%COMBO['' @ o1 @ a1 @ '']'' @ b" by simp
  from o1 have "newline \<notin> set o1" using lang_options[of o1] by simp
  moreover from a1 b have "newline \<notin> set a1" "newline \<notin> set b"
    unfolding lang_any_star by simp_all
  ultimately have "newline \<notin> set (o1 @ a1)" "newline \<notin> set b"
    by simp_all
  with w have "w = ''%COMBO['' @ (o1 @ a1) @ '']'' @ b \<and> newline \<notin> set (o1 @ a1) \<and> newline \<notin> set b"
    by simp
  then show "w \<in> {''%COMBO['' @ a @ '']'' @ b | a b. newline \<notin> set a \<and> newline \<notin> set b}"
    by blast
next
  fix w assume "w \<in> {''%COMBO['' @ a @ '']'' @ b | a b. newline \<notin> set a \<and> newline \<notin> set b}"
  then obtain a b where w: "w = ''%COMBO['' @ a @ '']'' @ b"
    and a: "newline \<notin> set a" and b: "newline \<notin> set b" by blast
  have 1: "[] \<in> lang (Many (Then (Many AnyChar) (Lit (CHR '',''))))"
    using lang_options by blast
  have 2: "a \<in> lang (Many AnyChar)" "b \<in> lang (Many AnyChar)"
    unfolding lang_any_star using a b by simp_all
  have "'']'' \<in> lang (Lit (CHR '']''))" by simp
  with 2(2) have 3: "'']'' @ b \<in> lang (Then (Lit (CHR '']'')) (Many AnyChar))"
    unfolding lang.simps(5)[of "Lit (CHR '']'')"] conc_def by blast
  have 4: "a @ '']'' @ b \<in> lang (Then (Many AnyChar) (Then (Lit (CHR '']'')) (Many AnyChar)))"
    using 2(1) 3 unfolding lang.simps(5)[of "Many AnyChar"] conc_def by blast
  have 5: "[] @ a @ '']'' @ b \<in> lang (Then (Many (Then (Many AnyChar) (Lit (CHR '',''))))
               (Then (Many AnyChar) (Then (Lit (CHR '']'')) (Many AnyChar))))"
    using 1 4 unfolding lang.simps(5)[of "Many (Then (Many AnyChar) (Lit (CHR '','')))"] conc_def
    by blast
  have "''%COMBO['' @ ([] @ a @ '']'' @ b) \<in> lang COMBO_TAG_REGEX"
    using 5 unfolding COMBO_TAG_REGEX_def lang.simps(5)[of "literal ''%COMBO[''"] lang_literal conc_def
    by blast
  with w show "w \<in> lang COMBO_TAG_REGEX" by simp
qed

lemma combo_tag_match_iff:
  "re_match COMBO_TAG_REGEX t \<longleftrightarrow>
     (\<exists>a b. newline \<notin> set a \<and> newline \<notin> set b \<and>
        (t = ''%COMBO['' @ a @ '']'' @ b \<or> t = ''%COMBO['' @ a @ '']'' @ b @ [newline]))"
proof
  assume "re_match COMBO_TAG_REGEX t"
  then consider "t \<in> lang COMBO_TAG_REGEX"
    | "t \<noteq> []" "last t = newline" "butlast t \<in> lang COMBO_TAG_REGEX"
    by (auto simp: re_match_def accepts_lang)
  then show "\<exists>a b. newline \<notin> set a \<and> newline \<notin> set b \<and>
        (t = ''%COMBO['' @ a @ '']'' @ b \<or> t = ''%COMBO['' @ a @ '']'' @ b @ [newline])"
  proof cases
    case 1
    then show ?thesis unfolding lang_COMBO_TAG_REGEX by blast
  next
    case 2
    from 2(3) obtain a b where ab: "butlast t = ''%COMBO['' @ a @ '']'' @ b"
      "newline \<notin> set a" "newline \<notin> set b"
      unfolding lang_COMBO_TAG_REGEX by blast
    from 2(1,2) have "t = butlast t @ [newline]" by (metis append_butlast_last_id)
    with ab have "t = ''%COMBO['' @ a @ '']'' @ b @ [newline]" by simp
    with ab(2,3) show ?thesis by blast
  qed
next
  assume "\<exists>a b. newline \<notin> set a \<and> newline \<notin> set b \<and>
        (t = ''%COMBO['' @ a @ '']'' @ b \<or> t = ''%COMBO['' @ a @ '']'' @ b @ [newline])"
  then obtain a b where ab: "newline \<notin> set a" "newline \<notin> set b"
    and t: "t = ''%COMBO['' @ a @ '']'' @ b \<or> t = ''%COMBO['' @ a @ '']'' @ b @ [newline]"
    by blast
  have in_lang: "''%COMBO['' @ a @ '']'' @ b \<in> lang COMBO_TAG_REGEX"
    unfolding lang_COMBO_TAG_REGEX using ab by blast
  from t show "re_match COMBO_TAG_REGEX t"
  proof
    assume "t = ''%COMBO['' @ a @ '']'' @ b"
    with in_lang show ?thesis by (simp add: re_match_def accepts_lang)
  next
    assume t': "t = ''%COMBO['' @ a @ '']'' @ b @ [newline]"
    then have "t = (''%COMBO['' @ a @ '']'' @ b) @ [newline]" by simp
    then have "butlast t = ''%COMBO['' @ a @ '']'' @ b" "last t = newline" "t \<noteq> []"
      by (simp_all only: butlast_snoc last_snoc) simp
    with in_lang show ?thesis by (simp add: re_match_def accepts_lang)
  qed
qed

text \<open>So a tooltip matches \<open>_COMBO_TAG_REGEX\<close> exactly when it is \<open>%COMBO[\<close>,
  then text with a \<open>]\<close> in it, all on one line, a final newline allowed.\<close>

section \<open>Settings codec: type inference and decoding\<close>

lemma combo_tooltip_matches: "re_match COMBO_TAG_REGEX ''%COMBO[soft,hard,off] Mode''"
  by (simp add: re_match_def COMBO_TAG_REGEX_def newline_def)

lemma plain_tooltip_differs: "\<not> re_match COMBO_TAG_REGEX ''Passes''"
  by (simp add: re_match_def COMBO_TAG_REGEX_def newline_def)

lemma combo_needs_prefix: "\<not> re_match COMBO_TAG_REGEX ''Mode %COMBO[soft,hard,off]''"
  by (simp add: re_match_def COMBO_TAG_REGEX_def newline_def)

lemma combo_needs_bracket: "\<not> re_match COMBO_TAG_REGEX ''%COMBO[soft,hard,off''"
  by (simp add: re_match_def COMBO_TAG_REGEX_def newline_def)

lemma combo_final_newline: "re_match COMBO_TAG_REGEX (''%COMBO[a] x'' @ [newline])"
  by (simp add: re_match_def COMBO_TAG_REGEX_def newline_def)

lemma combo_inner_newline: "\<not> re_match COMBO_TAG_REGEX (''%COMBO[a'' @ [newline] @ '',b] x'')"
  by (simp add: re_match_def COMBO_TAG_REGEX_def newline_def)

text \<open>
  Claim C5. The internal type code is assigned in priority order: 0 (boolean)
  whenever the string form of the default is \<open>True\<close> or \<open>False\<close>, whatever the
  tooltip is; for an integer default, 3 (combo) when the tooltip matches
  \<open>_COMBO_TAG_REGEX\<close> and 1 (plain integer) when it does not; 2 (float) for every
  other default. The tooltips that match are those of the form \<open>%COMBO[a]b\<close>, on
  one line, with or without a final newline.
\<close>

theorem to_internal_type_priority:
  "(str_in_True_False v \<longrightarrow> to_internal_type v tooltip = Inr 0) \<and>
   to_internal_type (PNum (NInt n)) (PStr t) = Inr (if re_match COMBO_TAG_REGEX t then 3 else 1) \<and>
   (re_match COMBO_TAG_REGEX t \<longleftrightarrow>
      (\<exists>a b. newline \<notin> set a \<and> newline \<notin> set b \<and>
         (t = ''%COMBO['' @ a @ '']'' @ b \<or> t = ''%COMBO['' @ a @ '']'' @ b @ [newline]))) \<and>
   (\<not> str_in_True_False v \<and> \<not> isinstance_int v \<longrightarrow> to_internal_type v tooltip = Inr 2)"
proof -
  have bool: "str_in_True_False v \<longrightarrow> to_internal_type v tooltip = Inr 0"
    by (simp add: to_internal_type_def)
  have int: "to_internal_type (PNum (NInt n)) (PStr t) =
      Inr (if re_match COMBO_TAG_REGEX t then 3 else 1)"
    by (simp add: to_internal_type_def)
  have other: "\<not> str_in_True_False v \<and> \<not> isinstance_int v \<longrightarrow>
      to_internal_type v tooltip = Inr 2"
    by (simp add: to_internal_type_def)
  from bool int combo_tag_match_iff[of t] other show ?thesis by blast
qed

theorem to_internal_type_priority_witness:
  "to_internal_type (PNum (NBool True)) (PStr ''%COMBO[soft,hard,off] Mode'') = Inr 0 \<and>
   to_internal_type (PNum (NInt 7)) (PStr ''%COMBO[soft,hard,off] Mode'') = Inr 3 \<and>
   to_internal_type (PNum (NFloat (Finite (5 / 2)))) (PStr ''%COMBO[soft,hard,off] Mode'') = Inr 2"
  using to_internal_type_priority
          [of "PNum (NBool True)" "PStr ''%COMBO[soft,hard,off] Mode''" 7 "''%COMBO[soft,hard,off] Mode''"]
        to_internal_type_priority
          [of "PNum (NFloat (Finite (5 / 2)))" "PStr ''%COMBO[soft,hard,off] Mode''" 7 "''Passes''"]
        combo_tooltip_matches
  by (simp del: append.simps)

lemma build_mappings_lookup:
  "build_mappings s = Inr m \<Longrightarrow> map_of s key = Some vl \<Longrightarrow>
   \<exists>v0 v4 c. getitem vl 0 = Inr v0 \<and> getitem vl 4 = Inr v4 \<and>
     to_internal_type v0 v4 = Inr c \<and> map_of m key = Some c"
proof (induction s arbitrary: m)
  case Nil
  then show ?case by simp
next
  case (Cons kv s)
  obtain k v where kv: "kv = (k, v)" by (cases kv)
  from Cons.prems(1) kv obtain v0 v4 c m' where
    parts: "getitem v 0 = Inr v0" "getitem v 4 = Inr v4" "to_internal_type v0 v4 = Inr c"
      "build_mappings s = Inr m'" "m = (k, c) # m'"
    by (auto split: sum.splits)
  show ?case
  proof (cases "k = key")
    case True
    with Cons.prems(2) kv have "vl = v" by simp
    with parts True show ?thesis by simp
  next
    case False
    with Cons.prems(2) kv have "map_of s key = Some vl" by simp
    from Cons.IH[OF parts(4) this] False parts(5) show ?thesis by simp
  qed
qed

lemma py_eq_bool: "py_eq x (NBool b) \<Longrightarrow> py_bool x = b"
  by (cases x rule: py_bool.cases) (auto simp: py_eq_def split: if_splits)

lemma py_eq_int: "py_eq x (NInt n) \<Longrightarrow> py_int x = Inr n"
  by (cases x rule: py_int.cases) (auto simp: py_eq_def trunc_def split: if_splits)

lemma mapping_code:
  assumes "Pipeline bn pth nm cbs ver dsc (Some s) = Inr p"
    and "map_of s key = Some vl"
    and "getitem vl 0 = Inr (PNum d)"
  shows "\<exists>c. map_of (mappings p) key = Some c \<and>
     (case d of NBool b \<Rightarrow> c = 0 | NInt n \<Rightarrow> c = 1 \<or> c = 3 | NFloat f \<Rightarrow> c = 2)"
proof -
  from assms(1) obtain m where m: "build_mappings s = Inr m" "mappings p = m"
    by (auto simp: Pipeline_def split: sum.splits)
  from build_mappings_lookup[OF m(1) assms(2)] assms(3) obtain v4 c where
    c: "to_internal_type (PNum d) v4 = Inr c" "map_of m key = Some c" by auto
  from c(1) have "case d of NBool b \<Rightarrow> c = 0 | NInt n \<Rightarrow> c = 1 \<or> c = 3 | NFloat f \<Rightarrow> c = 2"
    by (cases d) (auto simp: to_internal_type_def split: if_splits pyval.splits)
  with c(2) m(2) show ?thesis by simp
qed

lemma gamma_pipeline_built:
  "Pipeline last_component ''/game/pipelines/gamma.py'' ''Gamma''
     \<lparr>on_frame_process = brighten_frame, on_load = None, on_unload = None,
      before_change_settings = Some quiet_hook, after_change_settings = Some quiet_hook\<rparr>
     ''1.0'' [] (Some gamma_settings) = Inr gamma_pipeline"
  by (simp add: Pipeline_def gamma_settings_def gamma_pipeline_def getitem_def
      to_internal_type_def combo_tooltip_matches last_component_def)
     (simp add: re_match_def COMBO_TAG_REGEX_def newline_def)

text \<open>
  Claim C6. For a declared setting whose default is a number \<open>d\<close>, and a value
  \<open>v\<close> of the same type as the default (bool, int or float): decoding \<open>v\<close> itself
  with the inferred type code is a no-op, and decoding any number \<open>x\<close> that
  encodes \<open>v\<close> numerically (\<open>x == v\<close> in Python, as \<open>1.0\<close> encodes \<open>True\<close> and
  \<open>1\<close>) returns a value equal to \<open>v\<close>: \<open>v\<close> itself for a bool or an int, and \<open>x\<close>
  for a float.
\<close>

theorem to_value_round_trip:
  assumes "Pipeline bn pth nm cbs ver dsc (Some s) = Inr p"
    and "map_of s key = Some vl"
    and "getitem vl 0 = Inr (PNum d)"
    and "same_kind d v"
  shows "to_value p key v = Inr v \<and>
     (py_eq x v \<longrightarrow>
        (\<exists>y. to_value p key x = Inr y \<and> py_eq y v \<and> ((\<forall>f. v \<noteq> NFloat f) \<longrightarrow> y = v)))"
proof -
  from mapping_code[OF assms(1-3)] obtain c where
    c: "map_of (mappings p) key = Some c"
       "case d of NBool b \<Rightarrow> c = 0 | NInt n \<Rightarrow> c = 1 \<or> c = 3 | NFloat f \<Rightarrow> c = 2" by blast
  show ?thesis
  proof (cases v)
    case (NBool b)
    with assms(4) c(2) have "c = 0" by (cases d) auto
    with c(1) NBool show ?thesis
      by (auto simp: to_value_def py_eq_bool) (simp add: py_eq_def)
  next
    case (NInt n)
    with assms(4) c(2) have "c = 1 \<or> c = 3" by (cases d) auto
    with c(1) NInt show ?thesis
      by (auto simp: to_value_def py_eq_int) (simp_all add: py_eq_def)
  next
    case (NFloat f)
    with assms(4) c(2) have "c = 2" by (cases d) auto
    with c(1) NFloat show ?thesis
      by (auto simp: to_value_def)
  qed
qed

theorem to_value_round_trip_witness:
  "to_value gamma_pipeline ''mode'' (NInt 2) = Inr (NInt 2) \<and>
   to_value gamma_pipeline ''mode'' (NFloat (Finite 2)) = Inr (NInt 2) \<and>
   to_value gamma_pipeline ''invert'' (NBool True) = Inr (NBool True) \<and>
   to_value gamma_pipeline ''invert'' (NFloat (Finite 1)) = Inr (NBool True) \<and>
   to_value gamma_pipeline ''level'' (NFloat (Finite (5 / 2))) = Inr (NFloat (Finite (5 / 2)))"
proof -
  have mode: "map_of gamma_settings ''mode'' =
      Some [PNum (NInt 1), PNum (NInt 0), PNum (NInt 2), PNum (NInt 1),
            PStr ''%COMBO[soft,hard,off] Mode'']"
    and invert: "map_of gamma_settings ''invert'' =
      Some [PNum (NBool False), PNone, PNone, PNone, PStr ''Invert'']"
    and level: "map_of gamma_settings ''level'' =
      Some [PNum (NFloat (Finite 1)), PNum (NFloat (Finite 0)), PNum (NFloat (Finite 5)),
            PNum (NFloat (Finite (1 / 2))), PStr ''Gamma level'']"
    by (simp_all add: gamma_settings_def)
  have m: "same_kind (NInt 1) (NInt 2)" "py_eq (NFloat (Finite 2)) (NInt 2)"
    and i: "same_kind (NBool False) (NBool True)" "py_eq (NFloat (Finite 1)) (NBool True)"
    and l: "same_kind (NFloat (Finite 1)) (NFloat (Finite (5 / 2)))"
    by (simp_all add: py_eq_def)
  from to_value_round_trip[OF gamma_pipeline_built mode _ m(1), of "NFloat (Finite 2)"] m(2)
  have "to_value gamma_pipeline ''mode'' (NInt 2) = Inr (NInt 2)"
    "to_value gamma_pipeline ''mode'' (NFloat (Finite 2)) = Inr (NInt 2)"
    by (auto simp: getitem_def)
  moreover
  from to_value_round_trip[OF gamma_pipeline_built invert _ i(1), of "NFloat (Finite 1)"] i(2)
  have "to_value gamma_pipeline ''invert'' (NBool True) = Inr (NBool True)"
    "to_value gamma_pipeline ''invert'' (NFloat (Finite 1)) = Inr (NBool True)"
    by (auto simp: getitem_def)
  moreover
  from to_value_round_trip[OF gamma_pipeline_built level _ l, of "NFloat (Finite 1)"]
  have "to_value gamma_pipeline ''level'' (NFloat (Finite (5 / 2))) = Inr (NFloat (Finite (5 / 2)))"
    by (auto simp: getitem_def)
  ultimately show ?thesis by simp
qed

section \<open>Changing a setting\<close>

lemma dict_set_lookup: "map_of (dict_set d k v) k = Some v"
  by (induction d) auto

text \<open>
  Claim C7. For a declared setting with type code \<open>c\<close>, a new value that is a
  finite number \<open>r\<close> (a bool, an int or a finite float) and hooks that return,
  \<open>change_settings(enabled, key, new_value)\<close> calls \<open>before_change_settings(key,
  new_value)\<close> while the settings are still the old ones, then stores in
  \<open>settings[key][0]\<close> the internally typed value (the bool \<open>r \<noteq> 0\<close> for code 0,
  the int that \<open>r\<close> truncates to for codes 1 and 3, the value as it came for code
  2), then calls \<open>after_change_settings(key, new_value)\<close> on the updated settings;
  each hook is called exactly when \<open>enabled\<close> is true and the hook is present.
\<close>

theorem change_settings_order:
  assumes "map_of (mappings p) key = Some c"
    and "num_real new_value = Some r"
    and "settings p = Some s"
    and "map_of s key = Some (old # rest)"
    and "\<forall>h. before_change_settings (callbacks p) = Some h \<longrightarrow> h key new_value = None"
    and "\<forall>h. after_change_settings (callbacks p) = Some h \<longrightarrow> h key new_value = None"
  shows "(let x = (if c = 0 then NBool (r \<noteq> 0)
                   else if c = 1 \<or> c = 3 then NInt (if 0 \<le> r then \<lfloor>r\<rfloor> else \<lceil>r\<rceil>)
                   else new_value);
              s' = dict_set s key (PNum x # rest)
          in change_settings enabled key new_value (p, tr) =
               (Inr (), p\<lparr>settings := Some s'\<rparr>,
                tr @ (if enabled \<and> before_change_settings (callbacks p) \<noteq> None
                      then [BeforeChangeSettings key new_value (Some s)] else [])
                   @ (if enabled \<and> after_change_settings (callbacks p) \<noteq> None
                      then [AfterChangeSettings key new_value (Some s')] else []))
             \<and> map_of s' key = Some (PNum x # rest))"
proof -
  have b: "py_bool new_value = (r \<noteq> 0)"
    using assms(2) by (cases new_value rule: py_bool.cases) (auto split: if_splits)
  have i: "py_int new_value = Inr (if 0 \<le> r then \<lfloor>r\<rfloor> else \<lceil>r\<rceil>)"
    using assms(2) by (cases new_value rule: py_int.cases) (auto simp: trunc_def split: if_splits)
  have dec: "to_value p key new_value =
      Inr (if c = 0 then NBool (r \<noteq> 0)
           else if c = 1 \<or> c = 3 then NInt (if 0 \<le> r then \<lfloor>r\<rfloor> else \<lceil>r\<rceil>)
           else new_value)"
    using assms(1) b i by (simp add: to_value_def)
  show ?thesis
    unfolding Let_def
    using assms(3-6) dec
    by (auto simp: change_settings_def store_value_def dict_set_lookup Let_def
        split: option.splits)
qed

lemma gamma_mode:
  "map_of gamma_settings ''mode'' =
     Some (PNum (NInt 1) #
           [PNum (NInt 0), PNum (NInt 2), PNum (NInt 1), PStr ''%COMBO[soft,hard,off] Mode''])"
  by (simp add: gamma_settings_def)

lemma gamma_invert:
  "map_of gamma_settings ''invert'' =
     Some (PNum (NBool False) # [PNone, PNone, PNone, PStr ''Invert''])"
  by (simp add: gamma_settings_def)

theorem change_settings_order_witness:
  "change_settings True ''mode'' (NFloat (Finite 2)) (gamma_pipeline, []) =
     (Inr (),
      gamma_pipeline\<lparr>settings := Some (dict_set gamma_settings ''mode''
         [PNum (NInt 2), PNum (NInt 0), PNum (NInt 2), PNum (NInt 1),
          PStr ''%COMBO[soft,hard,off] Mode''])\<rparr>,
      [BeforeChangeSettings ''mode'' (NFloat (Finite 2)) (Some gamma_settings),
       AfterChangeSettings ''mode'' (NFloat (Finite 2))
         (Some (dict_set gamma_settings ''mode''
            [PNum (NInt 2), PNum (NInt 0), PNum (NInt 2), PNum (NInt 1),
             PStr ''%COMBO[soft,hard,off] Mode'']))]) \<and>
   change_settings False ''invert'' (NFloat (Finite 1)) (gamma_pipeline, []) =
     (Inr (),
      gamma_pipeline\<lparr>settings := Some (dict_set gamma_settings ''invert''
         [PNum (NBool True), PNone, PNone, PNone, PStr ''Invert''])\<rparr>,
      [])"
proof -
  have codes: "map_of (mappings gamma_pipeline) ''mode'' = Some 3"
    "map_of (mappings gamma_pipeline) ''invert'' = Some 0"
    by (simp_all add: gamma_pipeline_def)
  have nums: "num_real (NFloat (Finite 2)) = Some 2" "num_real (NFloat (Finite 1)) = Some 1"
    by simp_all
  have sett: "settings gamma_pipeline = Some gamma_settings"
    by (simp add: gamma_pipeline_def)
  have hooks:
    "\<forall>h. before_change_settings (callbacks gamma_pipeline) = Some h \<longrightarrow> h k v = None"
    "\<forall>h. after_change_settings (callbacks gamma_pipeline) = Some h \<longrightarrow> h k v = None"
    for k v
    by (simp_all add: gamma_pipeline_def quiet_hook_def)
  have present: "before_change_settings (callbacks gamma_pipeline) \<noteq> None"
    "after_change_settings (callbacks gamma_pipeline) \<noteq> None"
    by (simp_all add: gamma_pipeline_def)
  from change_settings_order[OF codes(1) nums(1) sett gamma_mode hooks, of True "[]"]
       change_settings_order[OF codes(2) nums(2) sett gamma_invert hooks, of False "[]"] present
  show ?thesis by (simp add: Let_def)
qed

text \<open>
  Claim C10. For a key that is not in the pipeline's mappings, and a
  \<open>before_change_settings\<close> hook that returns, \<open>change_settings\<close> still calls the
  hook when \<open>enabled\<close> is true and the hook is present, and then raises KeyError
  from the decode step: the pipeline, its settings included, is left as it was,
  and \<open>after_change_settings\<close> is not called.
\<close>

theorem change_settings_undeclared_key:
  assumes "map_of (mappings p) key = None"
    and "\<forall>h. before_change_settings (callbacks p) = Some h \<longrightarrow> h key new_value = None"
  shows "change_settings enabled key new_value (p, tr) =
     (Inl KeyError, p,
      tr @ (if enabled \<and> before_change_settings (callbacks p) \<noteq> None
            then [BeforeChangeSettings key new_value (settings p)] else []))"
  using assms
  by (auto simp: change_settings_def to_value_def Let_def split: option.splits)

theorem change_settings_undeclared_key_witness:
  "change_settings True ''gain'' (NFloat (Finite 3)) (gamma_pipeline, []) =
     (Inl KeyError, gamma_pipeline,
      [BeforeChangeSettings ''gain'' (NFloat (Finite 3)) (Some gamma_settings)])"
proof -
  have undeclared: "map_of (mappings gamma_pipeline) ''gain'' = None"
    by (simp add: gamma_pipeline_def)
  have hook:
    "\<forall>h. before_change_settings (callbacks gamma_pipeline) = Some h \<longrightarrow>
          h ''gain'' (NFloat (Finite 3)) = None"
    by (simp add: gamma_pipeline_def quiet_hook_def)
  from change_settings_undeclared_key[OF undeclared hook, of True "[]"]
  show ?thesis by (simp add: gamma_pipeline_def)
qed

section \<open>Processing a frame\<close>

text \<open>
  Claim C4, as the code has it. When the frame callback returns a buffer,
  \<open>process_frame\<close> raises FrameSizeModificationError exactly when the buffer's
  shape differs from the input frame's, and otherwise returns the callback's
  buffer; a raise returns no frame. The exception carries no argument: it is the
  same value whichever pipeline raised it.
\<close>

theorem process_frame_shape:
  assumes "on_frame_process (callbacks p) frame width height frame_num = Inr (Ndarray out)"
  shows "(process_frame p frame width height frame_num = Inl FrameSizeModificationError
            \<longleftrightarrow> shape out \<noteq> shape frame) \<and>
         process_frame p frame width height frame_num =
           (if shape out = shape frame then Inr out else Inl FrameSizeModificationError)"
  using assms by (auto simp: process_frame_def)

theorem process_frame_shape_witness:
  "process_frame (plain_pipeline ''brighten'' brighten_frame) black_frame 2 1 0 =
     Inr \<lparr>shape = [1, 2, 3], pixels = [10, 10, 10, 10, 10, 10]\<rparr> \<and>
   process_frame (plain_pipeline ''crop'' crop_frame) black_frame 2 1 0 =
     Inl FrameSizeModificationError"
proof -
  have b: "on_frame_process (callbacks (plain_pipeline ''brighten'' brighten_frame)) black_frame 2 1 0 =
      Inr (Ndarray \<lparr>shape = [1, 2, 3], pixels = [10, 10, 10, 10, 10, 10]\<rparr>)"
    by (simp add: plain_pipeline_def brighten_frame_def black_frame_def)
  have c: "on_frame_process (callbacks (plain_pipeline ''crop'' crop_frame)) black_frame 2 1 0 =
      Inr (Ndarray \<lparr>shape = [1, 1, 3], pixels = [0, 0, 0]\<rparr>)"
    by (simp add: plain_pipeline_def crop_frame_def black_frame_def)
  from process_frame_shape[OF b] process_frame_shape[OF c]
  show ?thesis by (simp add: black_frame_def)
qed

text \<open>
  Claim C4, as stated, fails: the raised condition does not identify the plugin.
  Two pipelines with different files and names raise the very same value.
\<close>

theorem process_frame_error_anonymous:
  "process_frame (plain_pipeline ''crop'' crop_frame) black_frame 2 1 0 =
     Inl FrameSizeModificationError \<and>
   process_frame (plain_pipeline ''trim'' crop_frame) black_frame 2 1 0 =
     Inl FrameSizeModificationError \<and>
   file_name (plain_pipeline ''crop'' crop_frame) \<noteq> file_name (plain_pipeline ''trim'' crop_frame) \<and>
   name (plain_pipeline ''crop'' crop_frame) \<noteq> name (plain_pipeline ''trim'' crop_frame)"
  by (simp add: process_frame_def plain_pipeline_def crop_frame_def black_frame_def)

section \<open>Loading pipelines: the root directory and failure isolation\<close>

lemma find_snoc:
  "List.find P (xs @ [y]) =
     (case List.find P xs of None \<Rightarrow> (if P y then Some y else None) | Some x \<Rightarrow> Some x)"
  by (induction xs) auto

lemma find_pipeline_dir_last:
  "find_pipeline_dir env ds acc =
     (case List.find (isdir env) (rev ds) of None \<Rightarrow> acc | Some d \<Rightarrow> Some (abspath env d))"
  by (induction ds arbitrary: acc) (auto simp: find_snoc split: option.splits)

lemma dict_set_fresh: "k \<notin> set (map fst d) \<Longrightarrow> dict_set d k v = d @ [(k, v)]"
  by (induction d) auto

lemma load_file_file_name: "load_file env pth = Inr pl \<Longrightarrow> file_name pl = basename env pth"
  by (auto simp: load_file_def build_pipeline_def Pipeline_def
      split: import_outcome.splits option.splits sum.splits)

lemma load_file_missing_entry_point:
  "import_module env (module_name_of env pth) pth = Executed mdl \<Longrightarrow>
   m_on_frame_process mdl = None \<Longrightarrow> load_file env pth = Inl ValueError"
  by (simp add: load_file_def build_pipeline_def)

text \<open>A file whose loading raises nothing outside class \<open>Exception\<close>.\<close>

lemma load_step_caught:
  assumes "case load_file env pth of Inl e \<Rightarrow> is_Exception e | Inr pl \<Rightarrow> True"
  shows "\<exists>st'. load_step env lg pth (ps, st) =
           (None,
            (case load_file env pth of
               Inr pl \<Rightarrow> dict_set ps (file_name pl) pl | Inl e \<Rightarrow> ps), st') \<and>
           logged st' =
             (if lg then logged st @ (case load_file env pth of
                                       Inr pl \<Rightarrow> [LoadedPipeline pth]
                                     | Inl e \<Rightarrow> [CannotLoadPipeline pth, ErrorDetail e])
              else logged st)"
  using assms
  by (auto simp: load_step_def Let_def split: sum.splits import_outcome.splits)

lemma load_files_scan:
  "distinct (map fst acc @ map (basename env) files) \<Longrightarrow>
   list_all (\<lambda>pth. case load_file env pth of Inl e \<Rightarrow> is_Exception e | Inr pl \<Rightarrow> True) files \<Longrightarrow>
   \<exists>st'. load_files env lg files (acc, st) =
     (None,
      acc @ concat (map (\<lambda>pth. case load_file env pth of
                                 Inr pl \<Rightarrow> [(basename env pth, pl)] | Inl e \<Rightarrow> []) files),
      st') \<and>
     logged st' =
       (if lg then logged st @
          concat (map (\<lambda>pth. case load_file env pth of
                                Inr pl \<Rightarrow> [LoadedPipeline pth]
                              | Inl e \<Rightarrow> [CannotLoadPipeline pth, ErrorDetail e]) files)
        else logged st)"
proof (induction files arbitrary: acc st)
  case Nil
  then show ?case by simp
next
  case (Cons pth files)
  have caught: "case load_file env pth of Inl e \<Rightarrow> is_Exception e | Inr pl \<Rightarrow> True"
    and rest: "list_all (\<lambda>pth. case load_file env pth of Inl e \<Rightarrow> is_Exception e
                                 | Inr pl \<Rightarrow> True) files"
    using Cons.prems(2) by simp_all
  have fresh: "basename env pth \<notin> set (map fst acc)"
    using Cons.prems(1) by auto
  let ?acc' = "acc @ (case load_file env pth of
                        Inr pl \<Rightarrow> [(basename env pth, pl)] | Inl e \<Rightarrow> [])"
  from load_step_caught[OF caught, of lg acc st] obtain st1 where
    step: "load_step env lg pth (acc, st) =
             (None, (case load_file env pth of
                       Inr pl \<Rightarrow> dict_set acc (file_name pl) pl | Inl e \<Rightarrow> acc), st1)"
    and lg1: "logged st1 = (if lg then logged st @ (case load_file env pth of
                             Inr pl \<Rightarrow> [LoadedPipeline pth]
                           | Inl e \<Rightarrow> [CannotLoadPipeline pth, ErrorDetail e])
                        else logged st)"
    by blast
  have acc': "(case load_file env pth of
                 Inr pl \<Rightarrow> dict_set acc (file_name pl) pl | Inl e \<Rightarrow> acc) = ?acc'"
    using fresh by (auto simp: load_file_file_name dict_set_fresh split: sum.splits)
  have d: "distinct (map fst ?acc' @ map (basename env) files)"
    using Cons.prems(1) by (cases "load_file env pth") auto
  from Cons.IH[OF d rest, of st1] obtain st' where
    ih: "load_files env lg files (?acc', st1) =
       (None, ?acc' @ concat (map (\<lambda>pth. case load_file env pth of
                                 Inr pl \<Rightarrow> [(basename env pth, pl)] | Inl e \<Rightarrow> []) files), st')"
    and lg': "logged st' =
       (if lg then logged st1 @
          concat (map (\<lambda>pth. case load_file env pth of
                                Inr pl \<Rightarrow> [LoadedPipeline pth]
                              | Inl e \<Rightarrow> [CannotLoadPipeline pth, ErrorDetail e]) files)
        else logged st1)"
    by blast
  have "load_files env lg (pth # files) (acc, st) = load_files env lg files (?acc', st1)"
    using step acc' by simp
  with ih lg' lg1 show ?case by auto
qed

text \<open>The first file whose loading raises outside class \<open>Exception\<close> ends the
  scan: \<open>load_pipelines\<close> raises that exception and returns no map.\<close>

lemma load_files_abort:
  assumes "list_all (\<lambda>pth. case load_file env pth of Inl e \<Rightarrow> is_Exception e | Inr pl \<Rightarrow> True) pre"
    and "load_file env pth = Inl ex" and "\<not> is_Exception ex"
  shows "fst (load_files env lg (pre @ pth # post) acc) = Some ex"
  using assms(1)
proof (induction pre arbitrary: acc)
  case Nil
  then show ?case using assms(2,3) by (simp add: load_step_def Let_def)
next
  case (Cons q pre)
  then have caught: "case load_file env q of Inl e \<Rightarrow> is_Exception e | Inr pl \<Rightarrow> True"
    and rest: "list_all (\<lambda>pth. case load_file env pth of Inl e \<Rightarrow> is_Exception e
                                 | Inr pl \<Rightarrow> True) pre"
    by simp_all
  obtain ps st where acc: "acc = (ps, st)" by (cases acc)
  from load_step_caught[OF caught, of lg ps st] obtain ps1 st1 where
    "load_step env lg q (ps, st) = (None, ps1, st1)" by blast
  with Cons.IH[OF rest, of "(ps1, st1)"] acc show ?case by simp
qed

lemma load_pipelines_aborts:
  assumes "find_pipeline_dir env PIPELINE_DIRS None = Some d"
    and "glob env (d @ ''/*.py'') = pre @ pth # post"
    and "list_all (\<lambda>pth. case load_file env pth of Inl e \<Rightarrow> is_Exception e | Inr pl \<Rightarrow> True) pre"
    and "load_file env pth = Inl ex" and "\<not> is_Exception ex"
  shows "fst (load_pipelines env lg st) = Inl ex"
  using load_files_abort[OF assms(3-5), of lg post "([], st)"] assms(1,2)
  by (auto simp: load_pipelines_def split: prod.splits option.splits)

lemma load_file_broken:
  "load_file (demo_env dirs listing) ''/game/pipelines/broken.py'' = Inl (PluginError ''SyntaxError'')"
  by (simp add: load_file_def demo_env_def module_name_of_def last_component_def demo_import_def)

lemma load_file_nohook:
  "load_file (demo_env dirs listing) ''/game/pipelines/nohook.py'' = Inl ValueError"
  by (simp add: load_file_def demo_env_def module_name_of_def last_component_def demo_import_def
      build_pipeline_def nohook_module_def brighten_module_def)

lemma load_file_brighten:
  "load_file (demo_env dirs listing) ''/game/pipelines/brighten.py'' =
     Inr (plain_pipeline ''brighten'' brighten_frame)"
  by (simp add: load_file_def demo_env_def module_name_of_def last_component_def demo_import_def
      build_pipeline_def brighten_module_def Pipeline_def plain_pipeline_def)

lemma load_file_crop:
  "load_file (demo_env dirs listing) ''/game/PyHook/pipelines/crop.py'' =
     Inr ((plain_pipeline ''crop'' crop_frame)\<lparr>path := ''/game/PyHook/pipelines/crop.py''\<rparr>)"
  by (simp add: load_file_def demo_env_def module_name_of_def last_component_def demo_import_def
      build_pipeline_def crop_module_def brighten_module_def Pipeline_def plain_pipeline_def)

lemma load_file_gamma:
  "load_file (demo_env dirs listing) ''/game/pipelines/gamma.py'' = Inr gamma_pipeline"
  using gamma_pipeline_built
  by (simp add: load_file_def demo_env_def module_name_of_def last_component_def demo_import_def
      build_pipeline_def gamma_module_def)

lemma load_file_quit:
  "load_file (demo_env dirs listing) ''/game/pipelines/quit.py'' = Inl SystemExit"
  by (simp add: load_file_def demo_env_def module_name_of_def last_component_def demo_import_def)

lemma demo_pipelines_dir:
  "find_pipeline_dir (demo_env [''./pipelines''] listing) PIPELINE_DIRS None =
     Some ''/game/pipelines''"
  by (simp add: demo_env_def PIPELINE_DIRS_def)

lemma demo_files:
  "glob (demo_env dirs demo_listing) (''/game/pipelines'' @ ''/*.py'') =
     [''/game/pipelines/broken.py'', ''/game/pipelines/brighten.py'',
      ''/game/pipelines/nohook.py'', ''/game/pipelines/gamma.py'']"
  "glob (demo_env dirs broken_listing) (''/game/pipelines'' @ ''/*.py'') =
     [''/game/pipelines/broken.py'', ''/game/pipelines/nohook.py'']"
  "glob (demo_env dirs quitting_listing) (''/game/pipelines'' @ ''/*.py'') =
     [''/game/pipelines/quit.py'', ''/game/pipelines/brighten.py'']"
  by (simp_all add: demo_env_def demo_listing_def broken_listing_def quitting_listing_def)

lemma demo_files_flat:
  "glob (demo_env dirs demo_listing) ''/game/pipelines/*.py'' =
     [''/game/pipelines/broken.py'', ''/game/pipelines/brighten.py'',
      ''/game/pipelines/nohook.py'', ''/game/pipelines/gamma.py'']"
  "glob (demo_env dirs broken_listing) ''/game/pipelines/*.py'' =
     [''/game/pipelines/broken.py'', ''/game/pipelines/nohook.py'']"
  "glob (demo_env dirs quitting_listing) ''/game/pipelines/*.py'' =
     [''/game/pipelines/quit.py'', ''/game/pipelines/brighten.py'']"
  using demo_files[of dirs] by simp_all

lemma demo_module_names:
  "module_name_of (demo_env dirs listing) ''/game/pipelines/broken.py'' = ''broken''"
  "module_name_of (demo_env dirs listing) ''/game/pipelines/nohook.py'' = ''nohook''"
  "module_name_of (demo_env dirs listing) ''/game/pipelines/quit.py'' = ''quit''"
  "import_module (demo_env dirs listing) ''broken'' pth = ExecFailed (PluginError ''SyntaxError'')"
  "import_module (demo_env dirs listing) ''nohook'' pth = Executed nohook_module"
  "import_module (demo_env dirs listing) ''quit'' pth = ExecFailed SystemExit"
  by (simp_all add: demo_env_def module_name_of_def last_component_def demo_import_def)

lemma demo_names:
  "basename (demo_env dirs listing) ''/game/pipelines/broken.py'' = ''broken.py''"
  "basename (demo_env dirs listing) ''/game/pipelines/brighten.py'' = ''brighten.py''"
  "basename (demo_env dirs listing) ''/game/pipelines/nohook.py'' = ''nohook.py''"
  "basename (demo_env dirs listing) ''/game/pipelines/gamma.py'' = ''gamma.py''"
  by (simp_all add: demo_env_def last_component_def)

text \<open>
  Claim C1, as the code has it. \<open>load_pipelines\<close> takes as the pipelines root the
  last candidate of \<open>['./pipelines', './PyHook/pipelines']\<close> that is an existing
  directory (its loop does not stop at the first one); if no candidate is an
  existing directory it raises PipelinesDirNotFoundError and nothing is loaded:
  no module is registered and nothing is logged. If some candidate exists, it
  returns a map, unless a plugin raises an exception outside class \<open>Exception\<close>.
\<close>

theorem load_pipelines_root:
  "find_pipeline_dir env PIPELINE_DIRS None =
     map_option (abspath env) (List.find (isdir env) (rev PIPELINE_DIRS)) \<and>
   (\<not> list_ex (isdir env) PIPELINE_DIRS \<longrightarrow>
      load_pipelines env lg st = (Inl PipelinesDirNotFoundError, st)) \<and>
   (list_ex (isdir env) PIPELINE_DIRS \<longrightarrow>
      (\<exists>ps. fst (load_pipelines env lg st) = Inr ps) \<or>
      (\<exists>e. fst (load_pipelines env lg st) = Inl e \<and> \<not> is_Exception e))"
proof -
  have abort: "fst (load_step env lg pth acc) = Some e \<Longrightarrow> \<not> is_Exception e" for pth acc e
    by (auto simp: load_step_def Let_def split: sum.splits if_splits)
  have scan: "fst (load_files env lg files acc) = Some e \<Longrightarrow> \<not> is_Exception e" for files acc e
  proof (induction files arbitrary: acc)
    case Nil
    then show ?case by simp
  next
    case (Cons pth files)
    show ?case
    proof (cases "fst (load_step env lg pth acc)")
      case None
      with Cons show ?thesis by (auto split: prod.splits option.splits)
    next
      case (Some ex)
      with Cons.prems have "ex = e" by (auto split: prod.splits option.splits)
      with Some abort show ?thesis by blast
    qed
  qed
  have scan': "load_files env lg files acc = (Some e, r) \<Longrightarrow> \<not> is_Exception e" for files acc e r
    using scan[of files acc e] by simp
  have found: "fst (load_pipelines env lg st) = Inl e \<Longrightarrow>
      find_pipeline_dir env PIPELINE_DIRS None \<noteq> None \<Longrightarrow> \<not> is_Exception e" for e
    by (auto simp: load_pipelines_def split: option.splits prod.splits dest: scan')
  have dir: "list_ex (isdir env) PIPELINE_DIRS \<Longrightarrow> find_pipeline_dir env PIPELINE_DIRS None \<noteq> None"
    by (auto simp: find_pipeline_dir_last PIPELINE_DIRS_def split: option.splits)
  have 3: "list_ex (isdir env) PIPELINE_DIRS \<longrightarrow>
      (\<exists>ps. fst (load_pipelines env lg st) = Inr ps) \<or>
      (\<exists>e. fst (load_pipelines env lg st) = Inl e \<and> \<not> is_Exception e)"
  proof
    assume "list_ex (isdir env) PIPELINE_DIRS"
    then have d: "find_pipeline_dir env PIPELINE_DIRS None \<noteq> None" by (rule dir)
    show "(\<exists>ps. fst (load_pipelines env lg st) = Inr ps) \<or>
      (\<exists>e. fst (load_pipelines env lg st) = Inl e \<and> \<not> is_Exception e)"
      using found[OF _ d] by (cases "fst (load_pipelines env lg st)") auto
  qed
  have 1: "find_pipeline_dir env PIPELINE_DIRS None =
     map_option (abspath env) (List.find (isdir env) (rev PIPELINE_DIRS))"
    by (simp add: find_pipeline_dir_last split: option.splits)
  have 2: "\<not> list_ex (isdir env) PIPELINE_DIRS \<longrightarrow>
      load_pipelines env lg st = (Inl PipelinesDirNotFoundError, st)"
    by (auto simp: find_pipeline_dir_last load_pipelines_def PIPELINE_DIRS_def
        split: option.splits)
  from 1 2 3 show ?thesis by blast
qed

theorem load_pipelines_root_witness:
  "load_pipelines (demo_env [] demo_listing) True fresh_state =
     (Inl PipelinesDirNotFoundError, fresh_state) \<and>
   find_pipeline_dir (demo_env [''./pipelines''] demo_listing) PIPELINE_DIRS None =
     Some ''/game/pipelines'' \<and>
   (\<exists>ps. fst (load_pipelines (demo_env [''./pipelines''] demo_listing) True fresh_state) = Inr ps)"
proof -
  have loads: "\<exists>ps. fst (load_pipelines (demo_env [''./pipelines''] demo_listing) True fresh_state) = Inr ps"
    by (simp add: load_pipelines_def demo_pipelines_dir demo_files_flat load_step_def Let_def
        load_file_broken load_file_brighten load_file_nohook load_file_gamma)
  from load_pipelines_root[of "demo_env [] demo_listing" True fresh_state]
       load_pipelines_root[of "demo_env [''./pipelines''] demo_listing" True fresh_state] loads
  show ?thesis
    by (simp add: demo_env_def PIPELINE_DIRS_def)
qed

text \<open>
  Claim C1, as stated, fails: when both candidates are directories, the first
  existing one is \<open>./pipelines\<close>, and \<open>load_pipelines\<close> loads from
  \<open>./PyHook/pipelines\<close>.
\<close>

theorem load_pipelines_root_not_first:
  "List.find (isdir (demo_env [''./pipelines'', ''./PyHook/pipelines''] demo_listing)) PIPELINE_DIRS =
     Some ''./pipelines'' \<and>
   find_pipeline_dir (demo_env [''./pipelines'', ''./PyHook/pipelines''] demo_listing)
     PIPELINE_DIRS None = Some ''/game/PyHook/pipelines'' \<and>
   map_sum id (map fst)
     (fst (load_pipelines (demo_env [''./pipelines'', ''./PyHook/pipelines''] demo_listing)
        False fresh_state)) = Inr [''crop.py'']"
proof -
  have dir: "find_pipeline_dir (demo_env [''./pipelines'', ''./PyHook/pipelines''] demo_listing)
     PIPELINE_DIRS None = Some ''/game/PyHook/pipelines''"
    by (simp add: demo_env_def PIPELINE_DIRS_def)
  have "glob (demo_env [''./pipelines'', ''./PyHook/pipelines''] demo_listing)
          (''/game/PyHook/pipelines'' @ ''/*.py'') = [''/game/PyHook/pipelines/crop.py'']"
    by (simp add: demo_env_def demo_listing_def)
  then have "fst (load_pipelines (demo_env [''./pipelines'', ''./PyHook/pipelines''] demo_listing)
        False fresh_state) =
      Inr [(''crop.py'', (plain_pipeline ''crop'' crop_frame)\<lparr>path := ''/game/PyHook/pipelines/crop.py''\<rparr>)]"
    using dir
    by (simp add: load_pipelines_def Let_def load_step_def load_file_crop plain_pipeline_def)
  with dir show ?thesis
    by (simp add: demo_env_def PIPELINE_DIRS_def)
qed

text \<open>
  Claim C8, as the code has it. With the root found, the listed files having
  distinct base names (they are the files of one directory) and no file raising
  outside class \<open>Exception\<close>, \<open>load_pipelines\<close> does not raise: it returns the map
  of exactly the files whose import and validation succeeded, in listing order,
  each under its base name. A file that fails at any point with an \<open>Exception\<close>
  (the import raising, \<open>on_frame_process\<close> missing, the constructor raising)
  contributes no entry, the files after it are still loaded, and the two error
  records are written when a logger was passed. When every file fails the result
  is the empty map.
\<close>

theorem load_pipelines_isolates_failures:
  assumes "find_pipeline_dir env PIPELINE_DIRS None = Some d"
    and "distinct (map (basename env) (glob env (d @ ''/*.py'')))"
    and "list_all (\<lambda>pth. case load_file env pth of Inl e \<Rightarrow> is_Exception e | Inr pl \<Rightarrow> True)
           (glob env (d @ ''/*.py''))"
  shows "\<exists>st'. load_pipelines env lg st =
           (Inr (concat (map (\<lambda>pth. case load_file env pth of
                                       Inr pl \<Rightarrow> [(basename env pth, pl)] | Inl e \<Rightarrow> [])
                          (glob env (d @ ''/*.py'')))), st') \<and>
         logged st' =
           (if lg
            then logged st @
              concat (map (\<lambda>pth. case load_file env pth of
                                    Inr pl \<Rightarrow> [LoadedPipeline pth]
                                  | Inl e \<Rightarrow> [CannotLoadPipeline pth, ErrorDetail e])
                       (glob env (d @ ''/*.py'')))
            else logged st)"
proof -
  have "distinct (map fst [] @ map (basename env) (glob env (d @ ''/*.py'')))"
    using assms(2) by simp
  from load_files_scan[OF this assms(3), of lg st] obtain st' where
    "load_files env lg (glob env (d @ ''/*.py'')) ([], st) =
       (None, [] @ concat (map (\<lambda>pth. case load_file env pth of
                                 Inr pl \<Rightarrow> [(basename env pth, pl)] | Inl e \<Rightarrow> [])
                             (glob env (d @ ''/*.py''))), st')"
    and "logged st' =
       (if lg then logged st @
          concat (map (\<lambda>pth. case load_file env pth of
                                Inr pl \<Rightarrow> [LoadedPipeline pth]
                              | Inl e \<Rightarrow> [CannotLoadPipeline pth, ErrorDetail e])
                   (glob env (d @ ''/*.py'')))
        else logged st)"
    by blast
  then show ?thesis using assms(1) by (simp add: load_pipelines_def)
qed

theorem load_pipelines_isolates_failures_witness:
  "(\<exists>st'. load_pipelines (demo_env [''./pipelines''] demo_listing) True fresh_state =
      (Inr [(''brighten.py'', plain_pipeline ''brighten'' brighten_frame),
            (''gamma.py'', gamma_pipeline)], st') \<and>
      logged st' =
        [CannotLoadPipeline ''/game/pipelines/broken.py'', ErrorDetail (PluginError ''SyntaxError''),
         LoadedPipeline ''/game/pipelines/brighten.py'',
         CannotLoadPipeline ''/game/pipelines/nohook.py'', ErrorDetail ValueError,
         LoadedPipeline ''/game/pipelines/gamma.py'']) \<and>
   (\<exists>st'. load_pipelines (demo_env [''./pipelines''] broken_listing) True fresh_state =
      (Inr [], st') \<and>
      logged st' =
        [CannotLoadPipeline ''/game/pipelines/broken.py'', ErrorDetail (PluginError ''SyntaxError''),
         CannotLoadPipeline ''/game/pipelines/nohook.py'', ErrorDetail ValueError])"
proof -
  have d1: "distinct (map (basename (demo_env [''./pipelines''] demo_listing))
      (glob (demo_env [''./pipelines''] demo_listing) (''/game/pipelines'' @ ''/*.py'')))"
    unfolding demo_files by (simp add: demo_names)
  have d2: "distinct (map (basename (demo_env [''./pipelines''] broken_listing))
      (glob (demo_env [''./pipelines''] broken_listing) (''/game/pipelines'' @ ''/*.py'')))"
    unfolding demo_files by (simp add: demo_names)
  have c1: "list_all (\<lambda>pth. case load_file (demo_env [''./pipelines''] demo_listing) pth of
                             Inl e \<Rightarrow> is_Exception e | Inr pl \<Rightarrow> True)
      (glob (demo_env [''./pipelines''] demo_listing) (''/game/pipelines'' @ ''/*.py''))"
    unfolding demo_files
    by (simp add: load_file_broken load_file_brighten load_file_nohook load_file_gamma)
  have c2: "list_all (\<lambda>pth. case load_file (demo_env [''./pipelines''] broken_listing) pth of
                             Inl e \<Rightarrow> is_Exception e | Inr pl \<Rightarrow> True)
      (glob (demo_env [''./pipelines''] broken_listing) (''/game/pipelines'' @ ''/*.py''))"
    unfolding demo_files
    by (simp add: load_file_broken load_file_nohook)
  from load_pipelines_isolates_failures[OF demo_pipelines_dir d1 c1, of True fresh_state]
  have one: "\<exists>st'. load_pipelines (demo_env [''./pipelines''] demo_listing) True fresh_state =
      (Inr [(''brighten.py'', plain_pipeline ''brighten'' brighten_frame),
            (''gamma.py'', gamma_pipeline)], st') \<and>
      logged st' =
        [CannotLoadPipeline ''/game/pipelines/broken.py'', ErrorDetail (PluginError ''SyntaxError''),
         LoadedPipeline ''/game/pipelines/brighten.py'',
         CannotLoadPipeline ''/game/pipelines/nohook.py'', ErrorDetail ValueError,
         LoadedPipeline ''/game/pipelines/gamma.py'']"
    unfolding demo_files
    by (simp add: demo_names load_file_broken load_file_brighten load_file_nohook load_file_gamma
        fresh_state_def)
  from load_pipelines_isolates_failures[OF demo_pipelines_dir d2 c2, of True fresh_state]
  have two: "\<exists>st'. load_pipelines (demo_env [''./pipelines''] broken_listing) True fresh_state =
      (Inr [], st') \<and>
      logged st' =
        [CannotLoadPipeline ''/game/pipelines/broken.py'', ErrorDetail (PluginError ''SyntaxError''),
         CannotLoadPipeline ''/game/pipelines/nohook.py'', ErrorDetail ValueError]"
    unfolding demo_files
    by (simp add: demo_names load_file_broken load_file_nohook fresh_state_def)
  from one two show ?thesis by simp
qed

text \<open>
  Claim C8, as stated, fails twice. Without a logger (the default) a failure is
  caught but nothing is logged. And \<open>except Exception\<close> does not catch a plugin
  that calls \<open>sys.exit()\<close> at import: \<open>load_pipelines\<close> raises SystemExit and the
  file after it, which would load, is never tried.
\<close>

theorem load_pipelines_unlogged_or_aborted:
  "load_pipelines (demo_env [''./pipelines''] broken_listing) False fresh_state =
     (Inr [], \<lparr>sys_modules = [''broken'', ''nohook''], logged = []\<rparr>) \<and>
   fst (load_pipelines (demo_env [''./pipelines''] quitting_listing) True fresh_state) =
     Inl SystemExit \<and>
   load_file (demo_env [''./pipelines''] quitting_listing) ''/game/pipelines/brighten.py'' =
     Inr (plain_pipeline ''brighten'' brighten_frame)"
  by (simp add: load_pipelines_def demo_pipelines_dir demo_files_flat load_step_def Let_def
      load_file_broken load_file_nohook load_file_quit load_file_brighten fresh_state_def
      register_module_def demo_module_names)

section \<open>What loading guarantees of the settings\<close>

lemma build_mappings_nonempty:
  "build_mappings s = Inr m \<Longrightarrow> list_all (\<lambda>kv. snd kv \<noteq> []) s"
proof (induction s arbitrary: m)
  case Nil
  then show ?case by simp
next
  case (Cons kv s)
  obtain k v where kv: "kv = (k, v)" by (cases kv)
  from Cons.prems kv obtain v0 m' where "getitem v 0 = Inr v0" "build_mappings s = Inr m'"
    by (auto split: sum.splits)
  with Cons.IH kv show ?case by (auto simp: getitem_def split: if_splits)
qed

lemma Pipeline_settings_ok:
  "Pipeline bn pth nm cbs ver dsc sett = Inr p \<Longrightarrow> settings_ok (settings p)"
  by (cases sett)
     (auto simp: Pipeline_def settings_ok_def build_mappings_nonempty split: sum.splits)

lemma load_file_settings_ok: "load_file env pth = Inr pl \<Longrightarrow> settings_ok (settings pl)"
  by (auto simp: load_file_def build_pipeline_def Pipeline_settings_ok
      split: import_outcome.splits option.splits)

lemma dict_set_all: "list_all P d \<Longrightarrow> P (k, v) \<Longrightarrow> list_all P (dict_set d k v)"
  by (induction d) auto

lemma load_step_loaded_ok:
  "loaded_ok acc \<Longrightarrow> loaded_ok (fst (snd (load_step env lg pth (acc, st))))"
proof (cases "load_file env pth")
  case (Inl e)
  then show "loaded_ok acc \<Longrightarrow> ?thesis" by (simp add: load_step_def Let_def)
next
  case (Inr pl)
  assume "loaded_ok acc"
  with load_file_settings_ok[OF Inr] have "loaded_ok (dict_set acc (file_name pl) pl)"
    by (simp add: loaded_ok_def dict_set_all)
  with Inr show ?thesis by (simp add: load_step_def Let_def)
qed

lemma load_files_loaded_ok:
  "loaded_ok acc \<Longrightarrow> loaded_ok (fst (snd (load_files env lg files (acc, st))))"
proof (induction files arbitrary: acc st)
  case Nil
  then show ?case by simp
next
  case (Cons pth files)
  obtain r acc' st' where step: "load_step env lg pth (acc, st) = (r, acc', st')"
    by (cases "load_step env lg pth (acc, st)") auto
  have ok: "loaded_ok acc'"
    using load_step_loaded_ok[OF Cons.prems, of env lg pth st] step by simp
  show ?case
  proof (cases r)
    case None
    with Cons.IH[OF ok, of st'] step show ?thesis by simp
  next
    case (Some ex)
    with ok step show ?thesis by simp
  qed
qed

text \<open>Every map that \<open>load_pipelines\<close> returns satisfies \<open>loaded_ok\<close>, the
  condition under which the persistence results below are stated.\<close>

lemma load_pipelines_loaded_ok:
  "load_pipelines env lg st = (Inr ps, st') \<Longrightarrow> loaded_ok ps"
proof -
  assume r: "load_pipelines env lg st = (Inr ps, st')"
  then obtain d where d: "find_pipeline_dir env PIPELINE_DIRS None = Some d"
    by (auto simp: load_pipelines_def split: option.splits)
  have "loaded_ok []" by (simp add: loaded_ok_def)
  from load_files_loaded_ok[OF this, of env lg "glob env (d @ ''/*.py'')" st] r d
  show "loaded_ok ps"
    by (auto simp: load_pipelines_def split: prod.splits option.splits)
qed

text \<open>Every record in the serialized form satisfies \<open>entries_ok\<close>, whatever the
  plugins loaded when it is read.\<close>

lemma persisted_record_entries_ok: "entries_ok (persisted_record pipelines order active) keys"
  by (auto simp: entries_ok_def persisted_record_def list_all_iff split: option.splits)

section \<open>Persistence: loading, reconciling and the round trip\<close>

lemma dict_set_keys: "map_of d k = Some w \<Longrightarrow> map fst (dict_set d k v) = map fst d"
  by (induction d) (auto split: if_splits)

lemma loaded_ok_member:
  assumes "loaded_ok pipelines" and "(f, pl) \<in> set pipelines" and "settings pl = Some s"
  shows "list_all (\<lambda>kv. snd kv \<noteq> []) s"
proof -
  from assms(1,2) have "settings_ok (settings pl)"
    by (auto simp: loaded_ok_def list_all_iff)
  with assms(3) show ?thesis by (simp add: settings_ok_def)
qed

lemma load_values_ok:
  "list_all (\<lambda>kv. snd kv \<noteq> []) s \<Longrightarrow>
   \<exists>s'. load_values kvs s = Inr s' \<and> map fst s' = map fst s \<and> list_all (\<lambda>kv. snd kv \<noteq> []) s'"
proof (induction kvs arbitrary: s)
  case Nil
  then show ?case by simp
next
  case (Cons kv kvs)
  obtain key v where kv: "kv = (key, v)" by (cases kv)
  show ?case
  proof (cases "map_of s key")
    case None
    with Cons kv show ?thesis by simp
  next
    case (Some vl)
    then have "(key, vl) \<in> set s" by (rule map_of_SomeD)
    with Cons.prems have "vl \<noteq> []" by (auto simp: list_all_iff)
    then obtain y ys where vl: "vl = y # ys" by (cases vl) auto
    have "list_all (\<lambda>kv. snd kv \<noteq> []) (dict_set s key (v # ys))"
      using Cons.prems by (simp add: dict_set_all)
    from Cons.IH[OF this] obtain s' where
      "load_values kvs (dict_set s key (v # ys)) = Inr s'"
      "map fst s' = map fst (dict_set s key (v # ys))"
      "list_all (\<lambda>kv. snd kv \<noteq> []) s'" by blast
    with Some vl kv show ?thesis by (simp add: dict_set_keys)
  qed
qed

lemma load_entries_ok:
  "loaded_ok pipelines \<Longrightarrow> entries_ok d (map fst pipelines) \<Longrightarrow>
   \<exists>pipelines'. load_entries d pipelines = (None, pipelines') \<and>
      map fst pipelines' = map fst pipelines \<and> loaded_ok pipelines'"
proof (induction d arbitrary: pipelines)
  case Nil
  then show ?case by simp
next
  case (Cons fv d)
  obtain f v where fv: "fv = (f, v)" by (cases fv)
  have rest: "entries_ok d (map fst pipelines)"
    using Cons.prems(2) by (simp add: entries_ok_def)
  show ?case
  proof (cases "f = ''order'' \<or> f = ''active''")
    case True
    with Cons.IH[OF Cons.prems(1) rest] fv show ?thesis by auto
  next
    case special: False
    show ?thesis
    proof (cases "map_of pipelines f")
      case None
      with Cons.IH[OF Cons.prems(1) rest] fv special show ?thesis by auto
    next
      case (Some pl)
      show ?thesis
      proof (cases "settings pl")
        case None
        with Cons.IH[OF Cons.prems(1) rest] fv special Some show ?thesis by auto
      next
        case sett: (Some s)
        from Some have mem: "(f, pl) \<in> set pipelines" by (rule map_of_SomeD)
        then have "f \<in> set (map fst pipelines)" by force
        with Cons.prems(2) fv special have "is_dict v" by (simp add: entries_ok_def)
        then obtain kvs where v: "v = PDict kvs" by (cases v) auto
        from load_values_ok[OF loaded_ok_member[OF Cons.prems(1) mem sett], of kvs] obtain s' where
          s': "load_values kvs s = Inr s'" "map fst s' = map fst s"
              "list_all (\<lambda>kv. snd kv \<noteq> []) s'" by blast
        let ?ps = "dict_set pipelines f (pl\<lparr>settings := Some s'\<rparr>)"
        have keys: "map fst ?ps = map fst pipelines"
          using Some by (rule dict_set_keys)
        have ok: "loaded_ok ?ps"
          unfolding loaded_ok_def
          using Cons.prems(1) s'(3)
          by (intro dict_set_all) (simp_all add: loaded_ok_def settings_ok_def)
        have "entries_ok d (map fst ?ps)" using rest keys by simp
        from Cons.IH[OF ok this] keys fv special Some sett v s'(1) show ?thesis by auto
      qed
    qed
  qed
qed

lemma keep_loaded_strings:
  "keep_loaded (map PStr xs) keys = Inr (filter (\<lambda>k. k \<in> set keys) xs)"
  by (induction xs) auto

lemma reconcile_lists:
  assumes "map_of d ''order'' = Some (PList (map PStr ord))"
    and "map_of d ''active'' = Some (PList (map PStr act))"
  shows "reconcile d keys =
     Inr \<lparr>pipeline_order = filter (\<lambda>k. k \<in> set keys) ord @ filter (\<lambda>k. k \<notin> set ord) keys,
          active_pipelines = filter (\<lambda>k. k \<in> set keys) act,
          to_unload = [], to_load = filter (\<lambda>k. k \<in> set keys) act, changes = []\<rparr>"
proof -
  have "(\<lambda>p. PStr p \<notin> PStr ` set ord) = (\<lambda>k. k \<notin> set ord)" by auto
  then show ?thesis
    using assms by (simp add: reconcile_def dict_get_def keep_loaded_strings Let_def)
qed

lemma demo_pipelines_ok: "loaded_ok demo_pipelines \<and> settings_distinct demo_pipelines"
  by (simp add: loaded_ok_def settings_distinct_def settings_ok_def demo_pipelines_def
      plain_pipeline_def gamma_pipeline_def gamma_settings_def)

text \<open>
  Claim C2, as the code has it. When the settings file is missing,
  \<open>load_settings\<close> returns the runtime data with \<open>pipeline_order\<close> all loaded
  plugin keys in discovery order, \<open>active_pipelines\<close>, \<open>to_load\<close>, \<open>to_unload\<close>
  and \<open>changes\<close> empty, and the flag false, and leaves every pipeline, its
  settings included, as it was.
\<close>

theorem load_settings_missing_file:
  assumes "fs (settings_path dir_path) = None"
  shows "load_settings pipelines dir_path fs =
     (Inr (\<lparr>pipeline_order = map fst pipelines, active_pipelines = [], to_unload = [],
            to_load = [], changes = []\<rparr>, False), pipelines)"
  using assms by (simp add: load_settings_def)

theorem load_settings_missing_file_witness:
  "load_settings demo_pipelines ''C:/game'' no_files =
     (Inr (\<lparr>pipeline_order = [''brighten.py'', ''gamma.py''], active_pipelines = [],
            to_unload = [], to_load = [], changes = []\<rparr>, False), demo_pipelines)"
proof -
  have "no_files (settings_path ''C:/game'') = None" by (simp add: no_files_def)
  with load_settings_missing_file
         [where fs = no_files and dir_path = "''C:/game''" and pipelines = demo_pipelines]
  show ?thesis by (simp add: demo_pipelines_def)
qed

text \<open>
  Claim C2, as stated, fails for a malformed file: \<open>load_settings\<close> has no
  \<open>try\<close>. For a file that is not JSON, \<open>json.load\<close> raises; for a JSON record
  without \<open>order\<close>, \<open>settings["order"]\<close> raises KeyError. Neither is treated as a
  missing file.
\<close>

theorem load_settings_malformed_raises:
  "load_settings demo_pipelines ''C:/game'' (no_files(settings_path ''C:/game'' := Some Malformed)) =
     (Inl JSONDecodeError, demo_pipelines) \<and>
   load_settings demo_pipelines ''C:/game''
       (no_files(settings_path ''C:/game'' := Some (Json (PDict [])))) =
     (Inl KeyError, demo_pipelines)"
  by (simp add: load_settings_def reconcile_def dict_get_def)

text \<open>
  Claim C3. When the settings file holds a persisted record (a dictionary whose
  \<open>order\<close> and \<open>active\<close> are lists of keys and whose entry for a loaded plugin is a
  dictionary), \<open>load_settings\<close> returns the flag true and the runtime data whose
  \<open>pipeline_order\<close> is the persisted order filtered to the loaded keys followed
  by the loaded keys absent from the persisted order, in discovery order; whose
  \<open>active_pipelines\<close> is the persisted active list filtered to the loaded keys;
  whose \<open>to_load\<close> is that same list; and whose \<open>to_unload\<close> and \<open>changes\<close> are
  empty. Keys of plugins that are no longer loaded are dropped without an error,
  and the set of loaded keys is unchanged.
\<close>

theorem load_settings_reconciles:
  assumes "fs (settings_path dir_path) = Some (Json (PDict d))"
    and "map_of d ''order'' = Some (PList (map PStr ord))"
    and "map_of d ''active'' = Some (PList (map PStr act))"
    and "entries_ok d (map fst pipelines)"
    and "loaded_ok pipelines"
  shows "fst (load_settings pipelines dir_path fs) =
     Inr (\<lparr>pipeline_order = filter (\<lambda>k. k \<in> set (map fst pipelines)) ord
                            @ filter (\<lambda>k. k \<notin> set ord) (map fst pipelines),
           active_pipelines = filter (\<lambda>k. k \<in> set (map fst pipelines)) act,
           to_unload = [],
           to_load = filter (\<lambda>k. k \<in> set (map fst pipelines)) act,
           changes = []\<rparr>, True)
     \<and> map fst (snd (load_settings pipelines dir_path fs)) = map fst pipelines"
proof -
  from load_entries_ok[OF assms(5,4)] obtain pipelines' where
    le: "load_entries d pipelines = (None, pipelines')" "map fst pipelines' = map fst pipelines"
    by blast
  show ?thesis
    using assms(1) le reconcile_lists[OF assms(2,3), of "map fst pipelines"]
    by (simp add: load_settings_def)
qed

theorem load_settings_reconciles_witness:
  "fst (load_settings drifted_pipelines ''C:/game''
          (no_files(settings_path ''C:/game'' := Some (Json (PDict drifted_record))))) =
     Inr (\<lparr>pipeline_order = [''brighten.py'', ''gamma.py'', ''d.py''],
           active_pipelines = [''gamma.py''], to_unload = [], to_load = [''gamma.py''],
           changes = []\<rparr>, True)"
proof -
  have stored: "(no_files(settings_path ''C:/game'' := Some (Json (PDict drifted_record))))
      (settings_path ''C:/game'') = Some (Json (PDict drifted_record))" by simp
  have ord: "map_of drifted_record ''order'' =
      Some (PList (map PStr [''a.py'', ''brighten.py'', ''gamma.py'']))"
    and act: "map_of drifted_record ''active'' = Some (PList (map PStr [''a.py'', ''gamma.py'']))"
    by (simp_all add: drifted_record_def)
  have keys: "map fst drifted_pipelines = [''brighten.py'', ''gamma.py'', ''d.py'']"
    by (simp add: drifted_pipelines_def demo_pipelines_def)
  have entries: "entries_ok drifted_record (map fst drifted_pipelines)"
    unfolding keys by (simp add: entries_ok_def drifted_record_def)
  have ok: "loaded_ok drifted_pipelines"
    using demo_pipelines_ok
    by (simp add: drifted_pipelines_def loaded_ok_def settings_ok_def plain_pipeline_def)
  from load_settings_reconciles
         [where fs = "no_files(settings_path ''C:/game'' := Some (Json (PDict drifted_record)))"
            and dir_path = "''C:/game''" and pipelines = drifted_pipelines,
          OF stored ord act entries ok]
  show ?thesis unfolding keys by simp
qed

lemma save_values_fresh:
  "distinct (map fst d @ map fst s) \<Longrightarrow> list_all (\<lambda>kv. snd kv \<noteq> []) s \<Longrightarrow>
   save_values s d = Inr (d @ map (\<lambda>kv. (fst kv, hd (snd kv))) s)"
proof (induction s arbitrary: d)
  case Nil
  then show ?case by simp
next
  case (Cons kv s)
  obtain key vl where kv: "kv = (key, vl)" by (cases kv)
  with Cons.prems have ne: "vl \<noteq> []" and fresh: "key \<notin> set (map fst d)" by auto
  then have g: "getitem vl 0 = Inr (hd vl)" by (simp add: getitem_def hd_conv_nth)
  have "distinct (map fst (d @ [(key, hd vl)]) @ map fst s)"
    using Cons.prems(1) kv by auto
  from Cons.IH[OF this] Cons.prems(2) kv g fresh show ?case
    by (simp add: dict_set_fresh)
qed

lemma save_entries_fresh:
  "distinct (map fst d @ map fst pipelines) \<Longrightarrow> loaded_ok pipelines \<Longrightarrow>
   settings_distinct pipelines \<Longrightarrow>
   save_entries pipelines d =
     Inr (d @ concat (map (\<lambda>fp. case settings (snd fp) of
                          None \<Rightarrow> []
                        | Some s \<Rightarrow> [(fst fp, PDict (map (\<lambda>kv. (fst kv, hd (snd kv))) s))])
               pipelines))"
proof (induction pipelines arbitrary: d)
  case Nil
  then show ?case by simp
next
  case (Cons fp pipelines)
  obtain f pl where fp: "fp = (f, pl)" by (cases fp)
  have ok: "loaded_ok pipelines" "settings_distinct pipelines"
    using Cons.prems by (simp_all add: loaded_ok_def settings_distinct_def)
  show ?case
  proof (cases "settings pl")
    case None
    have "distinct (map fst d @ map fst pipelines)" using Cons.prems(1) by auto
    from Cons.IH[OF this ok] None fp show ?thesis by simp
  next
    case (Some s)
    with Cons.prems fp have "distinct (map fst s)" "list_all (\<lambda>kv. snd kv \<noteq> []) s"
      by (simp_all add: loaded_ok_def settings_distinct_def settings_ok_def)
    then have sv: "save_values s [] = Inr (map (\<lambda>kv. (fst kv, hd (snd kv))) s)"
      using save_values_fresh[of "[]" s] by simp
    have fresh: "f \<notin> set (map fst d)" using Cons.prems(1) fp by auto
    have "distinct (map fst (d @ [(f, PDict (map (\<lambda>kv. (fst kv, hd (snd kv))) s))]) @ map fst pipelines)"
      using Cons.prems(1) fp by auto
    from Cons.IH[OF this ok] Some fp sv fresh show ?thesis
      by (simp add: dict_set_fresh)
  qed
qed

lemma map_of_middle:
  "k \<notin> set (map fst pre) \<Longrightarrow> map_of (pre @ (k, w) # post) k = Some w"
  by (induction pre) auto

lemma dict_set_middle:
  "k \<notin> set (map fst pre) \<Longrightarrow> dict_set (pre @ (k, w) # post) k v = pre @ (k, v) # post"
  by (induction pre) auto

text \<open>Loading the saved values of settings \<open>s\<close> into settings that differ from \<open>s\<close>
  in the current values only gives \<open>s\<close>: every saved value is stored.\<close>

lemma load_values_restores:
  "list_all2 (\<lambda>a b. fst a = fst b \<and> snd a \<noteq> [] \<and> snd b \<noteq> [] \<and> tl (snd a) = tl (snd b)) s0 s \<Longrightarrow>
   distinct (map fst pre @ map fst s0) \<Longrightarrow>
   load_values (map (\<lambda>kv. (fst kv, hd (snd kv))) s) (pre @ s0) = Inr (pre @ s)"
proof (induction s0 s arbitrary: pre rule: list_all2_induct)
  case Nil
  then show ?case by simp
next
  case (Cons a s0 b s)
  obtain k vl0 where a: "a = (k, vl0)" by (cases a)
  obtain k' vl where b: "b = (k', vl)" by (cases b)
  from Cons.hyps(1) a b have same: "k' = k" "vl0 \<noteq> []" "vl \<noteq> []" "tl vl0 = tl vl" by auto
  then obtain y ys where vl0: "vl0 = y # ys" by (cases vl0) auto
  from same vl0 have vl: "vl = hd vl # ys" by (cases vl) auto
  have fresh: "k \<notin> set (map fst pre)" using Cons.prems a by auto
  have d: "distinct (map fst (pre @ [(k, vl)]) @ map fst s0)"
    using Cons.prems a by auto
  have "load_values (map (\<lambda>kv. (fst kv, hd (snd kv))) (b # s)) (pre @ a # s0) =
        load_values (map (\<lambda>kv. (fst kv, hd (snd kv))) s) (pre @ (k, hd vl # ys) # s0)"
    using a b same(1) vl0 fresh
    by (simp add: map_of_middle dict_set_middle del: map_of_append)
  also have "\<dots> = load_values (map (\<lambda>kv. (fst kv, hd (snd kv))) s) ((pre @ [(k, vl)]) @ s0)"
    using vl by simp
  also have "\<dots> = Inr ((pre @ [(k, vl)]) @ s)"
    by (rule Cons.IH[OF d])
  finally show ?case using b same(1) by simp
qed

text \<open>Loading the saved entries of pipelines into freshly built ones gives the
  saved pipelines.\<close>

lemma load_entries_restores:
  "list_all2 (\<lambda>fc fp. fst fc = fst fp \<and> fresh_of (snd fp) (snd fc)) cur ps \<Longrightarrow>
   distinct (map fst pre @ map fst cur) \<Longrightarrow>
   ''order'' \<notin> set (map fst ps) \<Longrightarrow> ''active'' \<notin> set (map fst ps) \<Longrightarrow>
   settings_distinct ps \<Longrightarrow>
   load_entries
     (concat (map (\<lambda>fp. case settings (snd fp) of
                          None \<Rightarrow> []
                        | Some s \<Rightarrow> [(fst fp, PDict (map (\<lambda>kv. (fst kv, hd (snd kv))) s))]) ps))
     (pre @ cur) = (None, pre @ ps)"
proof (induction cur ps arbitrary: pre rule: list_all2_induct)
  case Nil
  then show ?case by simp
next
  case (Cons fc cur fp ps)
  obtain f c where fc: "fc = (f, c)" by (cases fc)
  obtain f' p where fp: "fp = (f', p)" by (cases fp)
  from Cons.hyps(1) fc fp have same: "f' = f" and fresh: "fresh_of p c" by auto
  have nf: "f \<notin> set (map fst pre)" using Cons.prems(1) fc by auto
  have special: "f \<noteq> ''order''" "f \<noteq> ''active''"
    using Cons.prems(2,3) fp same by auto
  have rest: "''order'' \<notin> set (map fst ps)" "''active'' \<notin> set (map fst ps)"
    "settings_distinct ps"
    using Cons.prems(2-4) by (simp_all add: settings_distinct_def)
  have d: "distinct (map fst (pre @ [(f, p)]) @ map fst cur)"
    using Cons.prems(1) fc by auto
  have ih: "load_entries
     (concat (map (\<lambda>fp. case settings (snd fp) of
                          None \<Rightarrow> []
                        | Some s \<Rightarrow> [(fst fp, PDict (map (\<lambda>kv. (fst kv, hd (snd kv))) s))]) ps))
     ((pre @ [(f, p)]) @ cur) = (None, (pre @ [(f, p)]) @ ps)"
    by (rule Cons.IH[OF d rest])
  show ?case
  proof (cases "settings p")
    case None
    with fresh have "c = p"
      by (auto simp: fresh_of_def split: option.splits)
    with ih None fc fp same show ?thesis by simp
  next
    case (Some s)
    with fresh obtain s0 where s0: "settings c = Some s0"
      and rel: "list_all2 (\<lambda>a b. fst a = fst b \<and> snd a \<noteq> [] \<and> snd b \<noteq> [] \<and> tl (snd a) = tl (snd b)) s0 s"
      and upd: "c\<lparr>settings := Some s\<rparr> = p"
      by (auto simp: fresh_of_def split: option.splits)
    from Cons.prems(4) fp Some have "distinct (map fst s)"
      by (simp add: settings_distinct_def)
    moreover from rel have "map fst s0 = map fst s"
      by (induction rule: list_all2_induct) auto
    ultimately have "distinct (map fst [] @ map fst s0)" by simp
    from load_values_restores[OF rel this]
    have lv: "load_values (map (\<lambda>kv. (fst kv, hd (snd kv))) s) s0 = Inr s" by simp
    have "load_entries
     (concat (map (\<lambda>fp. case settings (snd fp) of
                          None \<Rightarrow> []
                        | Some s \<Rightarrow> [(fst fp, PDict (map (\<lambda>kv. (fst kv, hd (snd kv))) s))]) (fp # ps)))
     (pre @ fc # cur) =
     load_entries
     (concat (map (\<lambda>fp. case settings (snd fp) of
                          None \<Rightarrow> []
                        | Some s \<Rightarrow> [(fst fp, PDict (map (\<lambda>kv. (fst kv, hd (snd kv))) s))]) ps))
     (pre @ (f, p) # cur)"
      using fc fp same Some special nf s0 lv upd
      by (simp add: map_of_middle dict_set_middle del: map_of_append)
    with ih fp same show ?thesis by simp
  qed
qed

text \<open>
  Claim C9, as the code has it. Take a loaded pipeline map \<open>pipelines\<close> with its
  current settings values (distinct keys, none of them \<open>order\<close> or \<open>active\<close>,
  every setting list non-empty, every settings dictionary with distinct keys), an
  \<open>order\<close> that lists exactly the loaded keys and an \<open>active\<close> list of loaded
  keys, and a settings file that can be opened for writing. Then \<open>save_settings\<close>
  writes the record of \<open>order\<close>, \<open>active\<close> and one entry per plugin with
  settings, mapping each setting key to its current value only. And
  \<open>load_settings\<close> on that file, applied to the same plugins as
  \<open>load_pipelines\<close> builds them anew (\<open>fresh\<close>: any current values, such as the
  plugins' defaults), returns the same order, the same active list (also as
  \<open>to_load\<close>) and the flag true, and leaves the pipelines equal to the saved
  ones: every saved settings value is restored.
\<close>

theorem save_load_round_trip:
  assumes "distinct (map fst pipelines)"
    and "''order'' \<notin> set (map fst pipelines)"
    and "''active'' \<notin> set (map fst pipelines)"
    and "loaded_ok pipelines"
    and "settings_distinct pipelines"
    and "set order = set (map fst pipelines)"
    and "set active \<subseteq> set (map fst pipelines)"
    and "open_w (settings_path dir_path) = None"
    and "list_all2 (\<lambda>fc fp. fst fc = fst fp \<and> fresh_of (snd fp) (snd fc)) fresh pipelines"
  shows "\<exists>fs'. save_settings open_w pipelines order active dir_path fs = Inr fs' \<and>
      fs' (settings_path dir_path) = Some (Json (PDict (persisted_record pipelines order active))) \<and>
      load_settings fresh dir_path fs' =
        (Inr (\<lparr>pipeline_order = order, active_pipelines = active, to_unload = [],
               to_load = active, changes = []\<rparr>, True), pipelines)"
proof -
  let ?hdr = "[(''order'', PList (map PStr order)), (''active'', PList (map PStr active))]"
  let ?doc = "persisted_record pipelines order active"
  have hdr: "dict_set (dict_set [] ''order'' (PList (map PStr order))) ''active''
              (PList (map PStr active)) = ?hdr" by simp
  have "distinct (map fst ?hdr @ map fst pipelines)" using assms(1-3) by auto
  from save_entries_fresh[OF this assms(4,5)]
  have saved: "save_entries pipelines ?hdr = Inr ?doc"
    by (simp add: persisted_record_def)
  let ?fs = "fs(settings_path dir_path := Some (Json (PDict ?doc)))"
  have save: "save_settings open_w pipelines order active dir_path fs = Inr ?fs"
    unfolding save_settings_def hdr saved using assms(8) by simp
  have keys: "map fst fresh = map fst pipelines"
    using assms(9) by (induction rule: list_all2_induct) auto
  then have "distinct (map fst [] @ map fst fresh)" using assms(1) by simp
  from load_entries_restores[OF assms(9) this assms(2,3,5)]
  have le: "load_entries ?doc fresh = (None, pipelines)"
    by (simp add: persisted_record_def)
  have o: "map_of ?doc ''order'' = Some (PList (map PStr order))"
    and a: "map_of ?doc ''active'' = Some (PList (map PStr active))"
    by (simp_all add: persisted_record_def)
  have f1: "filter (\<lambda>k. k \<in> set (map fst pipelines)) order = order"
    using assms(6) by (simp add: filter_id_conv)
  have f2: "filter (\<lambda>k. k \<notin> set order) (map fst pipelines) = []"
    using assms(6) by (simp add: filter_empty_conv)
  have f3: "filter (\<lambda>k. k \<in> set (map fst pipelines)) active = active"
    using assms(7) by (auto simp: filter_id_conv)
  have "load_settings fresh dir_path ?fs =
        (Inr (\<lparr>pipeline_order = order, active_pipelines = active, to_unload = [],
               to_load = active, changes = []\<rparr>, True), pipelines)"
    using le reconcile_lists[OF o a, of "map fst pipelines"] f1 f2 f3
    by (simp add: load_settings_def)
  with save show ?thesis by simp
qed

lemma tuned_pipelines_ok: "loaded_ok tuned_pipelines \<and> settings_distinct tuned_pipelines"
  by (simp add: loaded_ok_def settings_distinct_def settings_ok_def tuned_pipelines_def
      plain_pipeline_def gamma_pipeline_def tuned_settings_def)

lemma demo_fresh_of_tuned:
  "list_all2 (\<lambda>fc fp. fst fc = fst fp \<and> fresh_of (snd fp) (snd fc)) demo_pipelines tuned_pipelines"
  by (simp add: demo_pipelines_def tuned_pipelines_def fresh_of_def plain_pipeline_def
      gamma_pipeline_def gamma_settings_def tuned_settings_def)

theorem save_load_round_trip_witness:
  "\<exists>fs'. save_settings opens tuned_pipelines [''gamma.py'', ''brighten.py''] [''gamma.py'']
            ''C:/game'' no_files = Inr fs' \<and>
      fs' (settings_path ''C:/game'') =
        Some (Json (PDict
          [(''order'', PList [PStr ''gamma.py'', PStr ''brighten.py'']),
           (''active'', PList [PStr ''gamma.py'']),
           (''gamma.py'', PDict [(''level'', PNum (NFloat (Finite (5 / 2)))), (''mode'', PNum (NInt 2)),
                                 (''invert'', PNum (NBool True)), (''passes'', PNum (NInt 2))])])) \<and>
      load_settings demo_pipelines ''C:/game'' fs' =
        (Inr (\<lparr>pipeline_order = [''gamma.py'', ''brighten.py''], active_pipelines = [''gamma.py''],
               to_unload = [], to_load = [''gamma.py''], changes = []\<rparr>, True), tuned_pipelines) \<and>
      demo_pipelines \<noteq> tuned_pipelines"
proof -
  have keys: "map fst tuned_pipelines = [''brighten.py'', ''gamma.py'']"
    by (simp add: tuned_pipelines_def)
  have h: "distinct (map fst tuned_pipelines)"
    "''order'' \<notin> set (map fst tuned_pipelines)"
    "''active'' \<notin> set (map fst tuned_pipelines)"
    "set [''gamma.py'', ''brighten.py''] = set (map fst tuned_pipelines)"
    "set [''gamma.py''] \<subseteq> set (map fst tuned_pipelines)"
    unfolding keys by auto
  have w: "opens (settings_path ''C:/game'') = None" by (simp add: opens_def)
  have rec: "persisted_record tuned_pipelines [''gamma.py'', ''brighten.py''] [''gamma.py''] =
      [(''order'', PList [PStr ''gamma.py'', PStr ''brighten.py'']),
       (''active'', PList [PStr ''gamma.py'']),
       (''gamma.py'', PDict [(''level'', PNum (NFloat (Finite (5 / 2)))), (''mode'', PNum (NInt 2)),
                             (''invert'', PNum (NBool True)), (''passes'', PNum (NInt 2))])]"
    by (simp add: persisted_record_def tuned_pipelines_def plain_pipeline_def gamma_pipeline_def
        tuned_settings_def)
  have differ: "demo_pipelines \<noteq> tuned_pipelines"
    by (simp add: demo_pipelines_def tuned_pipelines_def gamma_pipeline_def gamma_settings_def
        tuned_settings_def)
  from save_load_round_trip[OF h(1-3) conjunct1[OF tuned_pipelines_ok]
         conjunct2[OF tuned_pipelines_ok] h(4,5), of opens "''C:/game''" demo_pipelines no_files,
         OF w demo_fresh_of_tuned]
  show ?thesis unfolding rec using differ by simp
qed

text \<open>
  Claim C9, as stated, fails for an order that does not list every loaded key:
  saved with the empty order, the loaded plugin comes back in the order. Nor does
  a save into a directory that does not exist write anything to load.
\<close>

theorem save_load_order_differs:
  "save_settings opens [(''brighten.py'', plain_pipeline ''brighten'' brighten_frame)] [] []
      ''C:/game'' no_files =
     Inr (no_files(settings_path ''C:/game'' :=
            Some (Json (PDict [(''order'', PList []), (''active'', PList [])])))) \<and>
   fst (load_settings [(''brighten.py'', plain_pipeline ''brighten'' brighten_frame)] ''C:/game''
          (no_files(settings_path ''C:/game'' :=
             Some (Json (PDict [(''order'', PList []), (''active'', PList [])]))))) =
     Inr (\<lparr>pipeline_order = [''brighten.py''], active_pipelines = [], to_unload = [],
            to_load = [], changes = []\<rparr>, True) \<and>
   save_settings no_directory demo_pipelines [''brighten.py'', ''gamma.py''] [] ''C:/gone'' no_files =
     Inl FileNotFoundError"
proof -
  have "save_entries demo_pipelines
          [(''order'', PList (map PStr [''brighten.py'', ''gamma.py''])), (''active'', PList (map PStr []))] =
        Inr (persisted_record demo_pipelines [''brighten.py'', ''gamma.py''] [])"
    using save_entries_fresh[OF _ conjunct1[OF demo_pipelines_ok] conjunct2[OF demo_pipelines_ok],
            of "[(''order'', PList (map PStr [''brighten.py'', ''gamma.py''])), (''active'', PList (map PStr []))]"]
    by (simp add: persisted_record_def demo_pipelines_def)
  then have "save_settings no_directory demo_pipelines [''brighten.py'', ''gamma.py''] [] ''C:/gone''
      no_files = Inl FileNotFoundError"
    by (simp add: save_settings_def no_directory_def)
  then show ?thesis
    by (simp add: save_settings_def load_settings_def plain_pipeline_def reconcile_def dict_get_def
        opens_def)
qed

end
